theory Spec2Isabelle
  imports Main "HOL-Library.AList"
begin

chapter \<open>The RBAC reconciliation core of the management auth controllers\<close>

text \<open>
  A shallow embedding of \<^verbatim>\<open>pkg/controllers/management/auth/manager.go\<close> and of
  \<^verbatim>\<open>waitUntilSSHKey\<close> of the node provisioning command builder. Part I holds the
  model, Part II the theorems.
\<close>

section \<open>Part I: the model\<close>

subsection \<open>Errors\<close>

text \<open>
  Go errors and run-time panics are values. \<open>Wrapf msg err\<close> is
  \<^verbatim>\<open>errors.Wrapf(err, msg)\<close>; the two panics are the ones an index read past the end
  of a slice and a field read through a nil pointer raise.
\<close>

datatype error =
    NotFound
  | AlreadyExists
  | BadRequest
  | OtherError string
  | Wrapf string error
  | Timeout string
  | PanicIndexOutOfRange
  | PanicNilDereference

text \<open>\<^verbatim>\<open>apierrors.IsNotFound\<close> and \<^verbatim>\<open>apierrors.IsAlreadyExists\<close>, on the errors a
  lister or a client returns (the code never applies them to a wrapped error).\<close>

fun IsNotFound :: "error \<Rightarrow> bool" where
  "IsNotFound NotFound = True"
| "IsNotFound _ = False"

fun IsAlreadyExists :: "error \<Rightarrow> bool" where
  "IsAlreadyExists AlreadyExists = True"
| "IsAlreadyExists _ = False"

text \<open>The error at the bottom of a chain of wrappings.\<close>

fun Cause :: "error \<Rightarrow> error" where
  "Cause (Wrapf msg err) = Cause err"
| "Cause err = err"

subsection \<open>Objects\<close>

text \<open>
  The API objects, with the fields this code reads or writes. A Go
  \<^verbatim>\<open>map[string]string\<close> of labels is an association list; a \<^verbatim>\<open>map[string]bool\<close>
  of verbs, whose entries are only ever written as \<^verbatim>\<open>verbs[v] = true\<close>, is the list
  of its keys. \<^verbatim>\<open>v1.Role\<close> and \<^verbatim>\<open>v1.ClusterRole\<close> have the same fields, and so
  have \<^verbatim>\<open>v1.RoleBinding\<close> and \<^verbatim>\<open>v1.ClusterRoleBinding\<close>; the dynamic type of a
  binding, which the type assertions of the code test, is the tag of \<open>obj\<close>.
\<close>

record PolicyRule =
  Verbs :: "string list"
  APIGroups :: "string list"
  Resources :: "string list"
  ResourceNames :: "string list"

record Subject =
  subj_Kind :: string
  subj_APIGroup :: string
  subj_Name :: string
  subj_Namespace :: string

record OwnerReference =
  own_APIVersion :: string
  own_Kind :: string
  own_Name :: string
  own_UID :: string

record RoleTemplate =
  rt_Name :: string
  rt_Rules :: "PolicyRule list"
  External :: bool
  Builtin :: bool
  Context :: string
  Administrative :: bool
  RoleTemplateNames :: "string list"

record Role =
  role_Name :: string
  role_Namespace :: string
  role_OwnerReferences :: "OwnerReference list"
  Rules :: "PolicyRule list"

record RoleRef =
  ref_Kind :: string
  ref_Name :: string

record RoleBinding =
  rb_Name :: string
  rb_GenerateName :: string
  rb_Namespace :: string
  rb_Labels :: "(string \<times> string) list"
  rb_OwnerReferences :: "OwnerReference list"
  Subjects :: "Subject list"
  RoleRef :: RoleRef

datatype obj = RoleBindingObj RoleBinding | ClusterRoleBindingObj RoleBinding

text \<open>\<^verbatim>\<open>slice.ContainsString\<close> of the norman library.\<close>

definition ContainsString :: "string list \<Rightarrow> string \<Rightarrow> bool" where
  "ContainsString xs s = (s \<in> set xs)"

text \<open>\<^verbatim>\<open>verbs[v] = true\<close> on a verb map, and the loop
  \<^verbatim>\<open>for _, v := range vs { verbs[v] = true }\<close>.\<close>

definition setTrue :: "string list \<Rightarrow> string \<Rightarrow> string list" where
  "setTrue verbs v = (if v \<in> set verbs then verbs else verbs @ [v])"

fun addVerbs :: "string list \<Rightarrow> string list \<Rightarrow> string list" where
  "addVerbs verbs [] = verbs"
| "addVerbs verbs (v # vs) = addVerbs (setTrue verbs v) vs"

subsection \<open>checkForManagementPlaneRules and checkGroup\<close>

fun checkGroup_loop :: "string \<Rightarrow> string list \<Rightarrow> bool" where
  "checkGroup_loop apiGroup [] = False"
| "checkGroup_loop apiGroup (rg # rgs) =
     (if rg = apiGroup \<or> rg = ''*'' then True else checkGroup_loop apiGroup rgs)"

definition checkGroup :: "string \<Rightarrow> PolicyRule \<Rightarrow> bool" where
  "checkGroup apiGroup rule = checkGroup_loop apiGroup (APIGroups rule)"

text \<open>The loop over the rules, threading the verb map.\<close>

fun collectVerbs :: "string \<Rightarrow> string \<Rightarrow> string list \<Rightarrow> PolicyRule list \<Rightarrow> string list" where
  "collectVerbs managementPlaneResource apiGroup verbs [] = verbs"
| "collectVerbs managementPlaneResource apiGroup verbs (rule # rules) =
     collectVerbs managementPlaneResource apiGroup
       (if (ContainsString (Resources rule) managementPlaneResource
              \<or> ContainsString (Resources rule) ''*'')
           \<and> length (ResourceNames rule) = 0
        then (if checkGroup apiGroup rule then addVerbs verbs (Verbs rule) else verbs)
        else verbs)
       rules"

text \<open>
  \<open>crGet name\<close> is \<^verbatim>\<open>m.crLister.Get("", name)\<close>. A lister returns an object or an
  error; on an error that is not NotFound the function returns it, on NotFound the
  rule list stays nil.
\<close>

definition checkForManagementPlaneRules ::
  "(string \<Rightarrow> error + Role) \<Rightarrow> RoleTemplate \<Rightarrow> string \<Rightarrow> string \<Rightarrow> error + string list" where
  "checkForManagementPlaneRules crGet role managementPlaneResource apiGroup =
     (if External role then
        (case crGet (rt_Name role) of
           Inl err \<Rightarrow>
             if \<not> IsNotFound err then Inl err
             else Inr (collectVerbs managementPlaneResource apiGroup [] [])
         | Inr externalRole \<Rightarrow>
             Inr (collectVerbs managementPlaneResource apiGroup [] (Rules externalRole)))
      else Inr (collectVerbs managementPlaneResource apiGroup [] (rt_Rules role)))"

subsection \<open>The role template graph: gatherRoleTemplates and gatherAndDedupeRoles\<close>

text \<open>
  \<open>rtGet name\<close> is \<^verbatim>\<open>m.rtLister.Get("", name)\<close>. The map of templates is an
  association list, \<^verbatim>\<open>roleTemplates[k] = v\<close> is \<open>AList.update\<close>. The recursion has no
  visited check, so it need not return: the walk is a partial function, \<open>None\<close> when
  it does not return. \<open>gatherRoleTemplates_loop\<close> is the \<^verbatim>\<open>for\<close> loop of
  \<^verbatim>\<open>gatherRoleTemplates\<close> over the names still to visit, with the recursive call on
  each fetched sub-template written out.
\<close>

partial_function (option) gatherRoleTemplates_loop ::
  "(string \<Rightarrow> error + RoleTemplate) \<Rightarrow> string list \<Rightarrow> (string \<times> RoleTemplate) list
     \<Rightarrow> (error + (string \<times> RoleTemplate) list) option" where
  "gatherRoleTemplates_loop rtGet names roleTemplates =
     (case names of
        [] \<Rightarrow> Some (Inr roleTemplates)
      | rtName # rest \<Rightarrow>
          (case rtGet rtName of
             Inl err \<Rightarrow> Some (Inl (Wrapf (''couldn't get RoleTemplate '' @ rtName) err))
           | Inr subRT \<Rightarrow>
               Option.bind
                 (gatherRoleTemplates_loop rtGet (RoleTemplateNames subRT)
                    (AList.update (rt_Name subRT) subRT roleTemplates))
                 (\<lambda>r. case r of
                    Inl err \<Rightarrow> Some (Inl (Wrapf (''couldn't gather RoleTemplate '' @ rtName) err))
                  | Inr roleTemplates' \<Rightarrow> gatherRoleTemplates_loop rtGet rest roleTemplates')))"

definition gatherRoleTemplates ::
  "(string \<Rightarrow> error + RoleTemplate) \<Rightarrow> RoleTemplate \<Rightarrow> (string \<times> RoleTemplate) list
     \<Rightarrow> (error + (string \<times> RoleTemplate) list) option" where
  "gatherRoleTemplates rtGet rt roleTemplates =
     gatherRoleTemplates_loop rtGet (RoleTemplateNames rt)
       (AList.update (rt_Name rt) rt roleTemplates)"

text \<open>The de-dupe loop: \<^verbatim>\<open>for _, role := range allRoles { roles[role.Name] = role }\<close>.\<close>

fun dedupe :: "(string \<times> RoleTemplate) list \<Rightarrow> (string \<times> RoleTemplate) list
     \<Rightarrow> (string \<times> RoleTemplate) list" where
  "dedupe [] roles = roles"
| "dedupe ((k, role) # allRoles) roles = dedupe allRoles (AList.update (rt_Name role) role roles)"

definition gatherAndDedupeRoles ::
  "(string \<Rightarrow> error + RoleTemplate) \<Rightarrow> string
     \<Rightarrow> (error + (string \<times> RoleTemplate) list) option" where
  "gatherAndDedupeRoles rtGet roleTemplateName =
     (case rtGet roleTemplateName of
        Inl err \<Rightarrow> Some (Inl err)
      | Inr rt \<Rightarrow>
          Option.bind (gatherRoleTemplates rtGet rt [])
            (\<lambda>r. case r of
               Inl err \<Rightarrow> Some (Inl err)
             | Inr allRoles \<Rightarrow> Some (Inr (dedupe allRoles []))))"

text \<open>
  The templates reachable from a template through inheritance lists, the names those
  templates list, and the inheritance relation below a root (sub-template, template).
  A lister is consistent when the template it returns for a name has that name.
\<close>

inductive_set reach :: "(string \<Rightarrow> error + RoleTemplate) \<Rightarrow> RoleTemplate \<Rightarrow> RoleTemplate set"
  for rtGet :: "string \<Rightarrow> error + RoleTemplate" and rt0 :: RoleTemplate where
  reach_root: "rt0 \<in> reach rtGet rt0"
| reach_step: "rt \<in> reach rtGet rt0 \<Longrightarrow> rtName \<in> set (RoleTemplateNames rt)
     \<Longrightarrow> rtGet rtName = Inr subRT \<Longrightarrow> subRT \<in> reach rtGet rt0"

definition namedBelow :: "(string \<Rightarrow> error + RoleTemplate) \<Rightarrow> RoleTemplate \<Rightarrow> string set" where
  "namedBelow rtGet rt0 = {rtName. \<exists>rt \<in> reach rtGet rt0. rtName \<in> set (RoleTemplateNames rt)}"

definition inheritsBelow ::
  "(string \<Rightarrow> error + RoleTemplate) \<Rightarrow> RoleTemplate \<Rightarrow> (RoleTemplate \<times> RoleTemplate) set" where
  "inheritsBelow rtGet rt0 =
     {(subRT, rt). rt \<in> reach rtGet rt0
        \<and> (\<exists>rtName \<in> set (RoleTemplateNames rt). rtGet rtName = Inr subRT)}"

definition consistentLister :: "(string \<Rightarrow> error + RoleTemplate) \<Rightarrow> bool" where
  "consistentLister rtGet = (\<forall>name rt. rtGet name = Inr rt \<longrightarrow> rt_Name rt = name)"


text \<open>
  The claim's words for a rule that counts: it lists the resource or the wildcard,
  carries no resource names, and lists the API group or the wildcard. \<open>rulesConsulted\<close>
  is the rule list the claim speaks of: the template's own, or the rules of the native
  cluster role of the same name when the template is external (none when there is no
  such role).
\<close>

definition ruleMatches :: "string \<Rightarrow> string \<Rightarrow> PolicyRule \<Rightarrow> bool" where
  "ruleMatches managementPlaneResource apiGroup rule =
     ((managementPlaneResource \<in> set (Resources rule) \<or> ''*'' \<in> set (Resources rule))
      \<and> ResourceNames rule = []
      \<and> (apiGroup \<in> set (APIGroups rule) \<or> ''*'' \<in> set (APIGroups rule)))"

definition rulesConsulted :: "(string \<Rightarrow> error + Role) \<Rightarrow> RoleTemplate \<Rightarrow> PolicyRule list" where
  "rulesConsulted crGet role =
     (if External role then (case crGet (rt_Name role) of Inl err \<Rightarrow> [] | Inr externalRole \<Rightarrow> Rules externalRole)
      else rt_Rules role)"

definition viewerRule :: PolicyRule where
  "viewerRule = \<lparr>Verbs = [''get''], APIGroups = [''management.cattle.io''],
     Resources = [''clusters''], ResourceNames = []\<rparr>"

definition viewer :: RoleTemplate where
  "viewer = \<lparr>rt_Name = ''viewer'', rt_Rules = [viewerRule], External = False, Builtin = False,
     Context = ''cluster'', Administrative = False, RoleTemplateNames = []\<rparr>"

text \<open>
  Auxiliary notions for stating what a walk returns: the lister as a partial map, the
  templates and names below a list of names, and the property of a walk's result with
  the templates \<open>S\<close> and names \<open>N\<close> below its starting point, started with the map
  \<open>acc\<close>.
\<close>

definition lookupT :: "(string \<Rightarrow> error + RoleTemplate) \<Rightarrow> string \<Rightarrow> RoleTemplate option" where
  "lookupT rtGet name = (case rtGet name of Inl err \<Rightarrow> None | Inr rt \<Rightarrow> Some rt)"

definition reachNames :: "(string \<Rightarrow> error + RoleTemplate) \<Rightarrow> string list \<Rightarrow> RoleTemplate set" where
  "reachNames rtGet names = {rt. \<exists>rtName \<in> set names. \<exists>subRT. rtGet rtName = Inr subRT \<and> rt \<in> reach rtGet subRT}"

definition namedNames :: "(string \<Rightarrow> error + RoleTemplate) \<Rightarrow> string list \<Rightarrow> string set" where
  "namedNames rtGet names = set names \<union>
     {n. \<exists>rtName \<in> set names. \<exists>subRT. rtGet rtName = Inr subRT \<and> n \<in> namedBelow rtGet subRT}"

definition walkResult :: "(string \<Rightarrow> error + RoleTemplate) \<Rightarrow> RoleTemplate set \<Rightarrow> string set
    \<Rightarrow> (string \<times> RoleTemplate) list \<Rightarrow> error + (string \<times> RoleTemplate) list \<Rightarrow> bool" where
  "walkResult rtGet S N acc r =
     (case r of
        Inr acc' \<Rightarrow> (\<forall>n \<in> N. \<exists>rt. rtGet n = Inr rt)
           \<and> map_of acc' = override_on (map_of acc) (lookupT rtGet) (rt_Name ` S)
           \<and> (distinct (map fst acc) \<longrightarrow> distinct (map fst acc'))
      | Inl err \<Rightarrow> (\<exists>n \<in> N. \<exists>err0. rtGet n = Inl err0 \<and> Cause err = Cause err0))"

text \<open>Listers over small template stores, for the witnesses and counterexamples.\<close>

definition projectMember :: RoleTemplate where
  "projectMember = \<lparr>rt_Name = ''project-member'', rt_Rules = [], External = False,
     Builtin = False, Context = ''project'', Administrative = False,
     RoleTemplateNames = [''viewer'']\<rparr>"

definition twoTemplates :: "string \<Rightarrow> error + RoleTemplate" where
  "twoTemplates name =
     (if name = ''project-member'' then Inr projectMember
      else if name = ''viewer'' then Inr viewer else Inl NotFound)"

definition dangling :: RoleTemplate where
  "dangling = \<lparr>rt_Name = ''dangling'', rt_Rules = [], External = False,
     Builtin = False, Context = ''project'', Administrative = False,
     RoleTemplateNames = [''ghost'']\<rparr>"

definition danglingLister :: "string \<Rightarrow> error + RoleTemplate" where
  "danglingLister name = (if name = ''dangling'' then Inr dangling else Inl NotFound)"

definition selfInheriting :: RoleTemplate where
  "selfInheriting = \<lparr>rt_Name = ''a'', rt_Rules = [], External = False,
     Builtin = False, Context = ''project'', Administrative = False,
     RoleTemplateNames = [''a'']\<rparr>"

definition cyclicLister :: "string \<Rightarrow> error + RoleTemplate" where
  "cyclicLister name = (if name = ''a'' then Inr selfInheriting else Inl NotFound)"

subsection \<open>checkReferencedRoles\<close>

text \<open>
  The constants of the package that this file uses and that are declared elsewhere.
\<close>

record constants =
  projectResource :: string
  clusterResource :: string
  membershipBindingOwner :: string
  crtbInProjectBindingOwner :: string
  prtbInClusterBindingOwner :: string

text \<open>
  The loop over the rules of checkReferencedRoles, and the checks it makes on the
  fetched template before it follows the inheritance list (\<open>checkReferencedRoles_direct\<close>).
  The builtin exceptions compare the name the function was called with.
\<close>

fun ownRule_loop :: "constants \<Rightarrow> PolicyRule list \<Rightarrow> bool" where
  "ownRule_loop c [] = False"
| "ownRule_loop c (rule # rules) =
     (if (ContainsString (Resources rule) (projectResource c)
            \<or> ContainsString (Resources rule) (clusterResource c))
         \<and> ContainsString (Verbs rule) ''own''
      then True else ownRule_loop c rules)"

definition checkReferencedRoles_direct :: "constants \<Rightarrow> string \<Rightarrow> RoleTemplate \<Rightarrow> bool" where
  "checkReferencedRoles_direct c roleTemplateName roleTemplate =
     (if Builtin roleTemplate \<and> Context roleTemplate = ''project''
          \<and> roleTemplateName = ''project-owner'' then True
      else if Builtin roleTemplate \<and> Context roleTemplate = ''cluster''
          \<and> roleTemplateName = ''cluster-owner'' then True
      else ownRule_loop c (rt_Rules roleTemplate))"

text \<open>
  The recursion need not return (there is no visited check): \<open>None\<close> is not returning.
  \<open>checkReferencedRoles_loop\<close> is the loop over the inheritance list, with the
  recursive call on each name written out; on an error it returns (false, err), which
  is \<open>Inl err\<close>.
\<close>

partial_function (option) checkReferencedRoles_loop ::
  "constants \<Rightarrow> (string \<Rightarrow> error + RoleTemplate) \<Rightarrow> string list \<Rightarrow> (error + bool) option" where
  "checkReferencedRoles_loop c rtGet names =
     (case names of
        [] \<Rightarrow> Some (Inr False)
      | rtName # rest \<Rightarrow>
          (case rtGet rtName of
             Inl err \<Rightarrow> Some (Inl err)
           | Inr roleTemplate \<Rightarrow>
               if checkReferencedRoles_direct c rtName roleTemplate
               then Some (Inr True)
               else Option.bind
                 (checkReferencedRoles_loop c rtGet (RoleTemplateNames roleTemplate))
                 (\<lambda>r. case r of
                    Inl err \<Rightarrow> Some (Inl err)
                  | Inr isOwnerRole \<Rightarrow>
                      if isOwnerRole then Some (Inr True)
                      else checkReferencedRoles_loop c rtGet rest)))"

definition checkReferencedRoles ::
  "constants \<Rightarrow> (string \<Rightarrow> error + RoleTemplate) \<Rightarrow> string \<Rightarrow> (error + bool) option" where
  "checkReferencedRoles c rtGet roleTemplateName =
     (case rtGet roleTemplateName of
        Inl err \<Rightarrow> Some (Inl err)
      | Inr roleTemplate \<Rightarrow>
          if checkReferencedRoles_direct c roleTemplateName roleTemplate
          then Some (Inr True)
          else checkReferencedRoles_loop c rtGet (RoleTemplateNames roleTemplate))"

text \<open>
  A template that the walk answers true on: one of the two builtin owner templates, or
  one with a rule on the project or cluster resource that has the verb own.
\<close>

definition ownerGranting :: "constants \<Rightarrow> RoleTemplate \<Rightarrow> bool" where
  "ownerGranting c rt =
     ((Builtin rt \<and> Context rt = ''project'' \<and> rt_Name rt = ''project-owner'')
      \<or> (Builtin rt \<and> Context rt = ''cluster'' \<and> rt_Name rt = ''cluster-owner'')
      \<or> (\<exists>rule \<in> set (rt_Rules rt).
            (projectResource c \<in> set (Resources rule) \<or> clusterResource c \<in> set (Resources rule))
            \<and> ''own'' \<in> set (Verbs rule)))"

text \<open>Constants and listers for the witnesses and counterexamples.\<close>

definition testConstants :: constants where
  "testConstants = \<lparr>projectResource = ''projects'', clusterResource = ''clusters'',
     membershipBindingOwner = ''owner'',
     crtbInProjectBindingOwner = ''crtb-in-project-binding-owner'',
     prtbInClusterBindingOwner = ''prtb-in-cluster-binding-owner''\<rparr>"

definition ownRule :: PolicyRule where
  "ownRule = \<lparr>Verbs = [''own''], APIGroups = [''management.cattle.io''],
     Resources = [''projects''], ResourceNames = []\<rparr>"

definition projectOwner :: RoleTemplate where
  "projectOwner = \<lparr>rt_Name = ''project-owner'', rt_Rules = [], External = False,
     Builtin = True, Context = ''project'', Administrative = False, RoleTemplateNames = []\<rparr>"

definition custom :: RoleTemplate where
  "custom = \<lparr>rt_Name = ''custom'', rt_Rules = [], External = False,
     Builtin = False, Context = ''project'', Administrative = False,
     RoleTemplateNames = [''project-owner'']\<rparr>"

definition owning :: RoleTemplate where
  "owning = \<lparr>rt_Name = ''owning'', rt_Rules = [ownRule], External = False,
     Builtin = False, Context = ''project'', Administrative = False, RoleTemplateNames = []\<rparr>"

definition mixed :: RoleTemplate where
  "mixed = \<lparr>rt_Name = ''mixed'', rt_Rules = [], External = False,
     Builtin = False, Context = ''project'', Administrative = False,
     RoleTemplateNames = [''ghost'', ''owning'']\<rparr>"

definition ownerTemplates :: "string \<Rightarrow> error + RoleTemplate" where
  "ownerTemplates name =
     (if name = ''custom'' then Inr custom
      else if name = ''project-owner'' then Inr projectOwner
      else if name = ''mixed'' then Inr mixed
      else if name = ''owning'' then Inr owning
      else Inl NotFound)"

subsection \<open>reconcileDesiredMGMTPlaneRoleBindings\<close>

text \<open>
  \<^verbatim>\<open>typesrbacv1.RoleBindingInterface\<close>, the client the function is given: each call
  takes the state of the world behind the client and returns the error (or nil) with
  the new state.
\<close>

record 'st RoleBindingInterface =
  rbi_Create :: "RoleBinding \<Rightarrow> 'st \<Rightarrow> error option \<times> 'st"
  rbi_Delete :: "string \<Rightarrow> 'st \<Rightarrow> error option \<times> 'st"

text \<open>
  The maps of bindings are association lists in the order the \<^verbatim>\<open>range\<close> loops visit
  them. The first loop, over \<^verbatim>\<open>currentRBs\<close>, threads \<^verbatim>\<open>processed\<close>, \<^verbatim>\<open>desiredRBs\<close>
  and \<^verbatim>\<open>rbsToDelete\<close>.
\<close>

fun diffLoop :: "(string \<times> RoleBinding) list \<Rightarrow> string list \<Rightarrow> (string \<times> RoleBinding) list
    \<Rightarrow> string list \<Rightarrow> (string \<times> RoleBinding) list \<times> string list" where
  "diffLoop [] processed desiredRBs rbsToDelete = (desiredRBs, rbsToDelete)"
| "diffLoop ((k, rb) # currentRBs) processed desiredRBs rbsToDelete =
     (if rb_Name rb \<in> set processed then diffLoop currentRBs processed desiredRBs rbsToDelete
      else if map_of desiredRBs (rb_Name rb) \<noteq> None then
        diffLoop currentRBs (setTrue processed (rb_Name rb))
          (AList.delete (rb_Name rb) desiredRBs) rbsToDelete
      else
        diffLoop currentRBs (setTrue processed (rb_Name rb)) desiredRBs
          (setTrue rbsToDelete (rb_Name rb)))"

text \<open>
  The second loop creates what is left of \<^verbatim>\<open>desiredRBs\<close>. Its log line reads
  \<^verbatim>\<open>rb.Subjects[0].Name\<close> before the create, which panics on a binding with no
  subject.
\<close>

fun createLoop :: "'st RoleBindingInterface \<Rightarrow> (string \<times> RoleBinding) list \<Rightarrow> 'st
    \<Rightarrow> error option \<times> 'st" where
  "createLoop roleBindings [] s = (None, s)"
| "createLoop roleBindings ((k, rb) # desiredRBs) s =
     (case Subjects rb of
        [] \<Rightarrow> (Some PanicIndexOutOfRange, s)
      | subject # subjects \<Rightarrow>
          (case rbi_Create roleBindings rb s of
             (Some err, s') \<Rightarrow>
               if \<not> IsAlreadyExists err then (Some err, s')
               else createLoop roleBindings desiredRBs s'
           | (None, s') \<Rightarrow> createLoop roleBindings desiredRBs s'))"

fun deleteLoop :: "'st RoleBindingInterface \<Rightarrow> string list \<Rightarrow> 'st \<Rightarrow> error option \<times> 'st" where
  "deleteLoop roleBindings [] s = (None, s)"
| "deleteLoop roleBindings (name # rbsToDelete) s =
     (case rbi_Delete roleBindings name s of
        (Some err, s') \<Rightarrow> (Some err, s')
      | (None, s') \<Rightarrow> deleteLoop roleBindings rbsToDelete s')"

definition reconcileDesiredMGMTPlaneRoleBindings ::
  "(string \<times> RoleBinding) list \<Rightarrow> (string \<times> RoleBinding) list \<Rightarrow> 'st RoleBindingInterface
     \<Rightarrow> 'st \<Rightarrow> error option \<times> 'st" where
  "reconcileDesiredMGMTPlaneRoleBindings currentRBs desiredRBs roleBindings s =
     (case diffLoop currentRBs [] desiredRBs [] of
        (desiredRBs', rbsToDelete) \<Rightarrow>
          (case createLoop roleBindings desiredRBs' s of
             (Some err, s') \<Rightarrow> (Some err, s')
           | (None, s') \<Rightarrow> deleteLoop roleBindings rbsToDelete s'))"

text \<open>
  A client that records the writes it is asked for and answers each with what
  \<open>respond\<close> says, given the writes so far.
\<close>

datatype bindingWrite = CreateRoleBinding RoleBinding | DeleteRoleBinding string

definition recordingRoleBindings ::
  "(bindingWrite list \<Rightarrow> bindingWrite \<Rightarrow> error option) \<Rightarrow> (bindingWrite list) RoleBindingInterface" where
  "recordingRoleBindings respond =
     \<lparr>rbi_Create = (\<lambda>rb writes. (respond writes (CreateRoleBinding rb), writes @ [CreateRoleBinding rb])),
      rbi_Delete = (\<lambda>name writes. (respond writes (DeleteRoleBinding name), writes @ [DeleteRoleBinding name]))\<rparr>"

text \<open>
  The conditions of the claim: a client whose creates fail at most with AlreadyExists and
  whose deletes succeed, and a map of bindings in which each binding stands under its
  own name.
\<close>

definition benign :: "(bindingWrite list \<Rightarrow> bindingWrite \<Rightarrow> error option) \<Rightarrow> bool" where
  "benign respond =
     ((\<forall>writes rb. respond writes (CreateRoleBinding rb) = None
          \<or> respond writes (CreateRoleBinding rb) = Some AlreadyExists)
      \<and> (\<forall>writes name. respond writes (DeleteRoleBinding name) = None))"

definition keyedByName :: "(string \<times> RoleBinding) list \<Rightarrow> bool" where
  "keyedByName rbs = (distinct (map fst rbs) \<and> (\<forall>(k, rb) \<in> set rbs. rb_Name rb = k))"

text \<open>The scenario of the spec: desired a-viewer and b-viewer, current a-viewer and c-viewer.\<close>

definition someSubject :: Subject where
  "someSubject = \<lparr>subj_Kind = ''User'', subj_APIGroup = ''rbac.authorization.k8s.io'',
     subj_Name = ''u-1'', subj_Namespace = []\<rparr>"

definition viewerBinding :: "string \<Rightarrow> RoleBinding" where
  "viewerBinding name = \<lparr>rb_Name = name, rb_GenerateName = [], rb_Namespace = [],
     rb_Labels = [], rb_OwnerReferences = [], Subjects = [someSubject],
     RoleRef = \<lparr>ref_Kind = ''Role'', ref_Name = ''viewer''\<rparr>\<rparr>"

definition noSubjects :: RoleBinding where
  "noSubjects = \<lparr>rb_Name = ''b-viewer'', rb_GenerateName = [], rb_Namespace = [],
     rb_Labels = [], rb_OwnerReferences = [], Subjects = [],
     RoleRef = \<lparr>ref_Kind = ''Role'', ref_Name = ''viewer''\<rparr>\<rparr>"

subsection \<open>reconcileManagementPlaneRole and buildRule\<close>

text \<open>
  \<^verbatim>\<open>buildRule\<close> lists the keys of the verb map in the order its loop visits them.
\<close>

definition buildRule :: "string \<Rightarrow> string list \<Rightarrow> PolicyRule" where
  "buildRule resource verbs =
     \<lparr>Verbs = verbs, APIGroups = [''*''], Resources = [resource], ResourceNames = []\<rparr>"

text \<open>
  \<^verbatim>\<open>typesrbacv1.RoleInterface\<close>, the client \<^verbatim>\<open>m.mgmt.RBAC.Roles(namespace)\<close>, as far
  as it is used.
\<close>

record 'st RoleInterface =
  ri_Create :: "Role \<Rightarrow> 'st \<Rightarrow> error option \<times> 'st"
  ri_Update :: "Role \<Rightarrow> 'st \<Rightarrow> error option \<times> 'st"

text \<open>The loop that collects \<^verbatim>\<open>currentVerbs\<close> for a resource from \<^verbatim>\<open>role.Rules\<close>.\<close>

fun currentVerbs_loop :: "string \<Rightarrow> string list \<Rightarrow> PolicyRule list \<Rightarrow> string list" where
  "currentVerbs_loop resource currentVerbs [] = currentVerbs"
| "currentVerbs_loop resource currentVerbs (rule # rules) =
     currentVerbs_loop resource
       (if ContainsString (Resources rule) resource then addVerbs currentVerbs (Verbs rule)
        else currentVerbs)
       rules"

text \<open>
  The loop over \<^verbatim>\<open>newRole.Rules\<close> that overwrites every rule listing the resource,
  threading \<^verbatim>\<open>added\<close>.
\<close>

fun replaceRules :: "string \<Rightarrow> string list \<Rightarrow> PolicyRule list \<Rightarrow> bool \<Rightarrow> PolicyRule list \<times> bool" where
  "replaceRules resource newVerbs [] added = ([], added)"
| "replaceRules resource newVerbs (rule # rules) added =
     (if ContainsString (Resources rule) resource then
        (case replaceRules resource newVerbs rules True of
           (rules', added') \<Rightarrow> (buildRule resource newVerbs # rules', added'))
      else
        (case replaceRules resource newVerbs rules added of
           (rules', added') \<Rightarrow> (rule # rules', added')))"

text \<open>
  The loop over \<^verbatim>\<open>resourceToVerbs\<close> (an association list in the order of the visit),
  threading \<^verbatim>\<open>newRole.Rules\<close> and \<^verbatim>\<open>update\<close>; \<open>roleRules\<close> is \<^verbatim>\<open>role.Rules\<close>, which
  stays as fetched. \<^verbatim>\<open>reflect.DeepEqual\<close> of two verb maps, both non-nil with all
  values true, is equality of their key sets.
\<close>

fun updateLoop :: "PolicyRule list \<Rightarrow> (string \<times> string list) list \<Rightarrow> PolicyRule list \<Rightarrow> bool
    \<Rightarrow> PolicyRule list \<times> bool" where
  "updateLoop roleRules [] newRules update = (newRules, update)"
| "updateLoop roleRules ((resource, newVerbs) # resourceToVerbs) newRules update =
     (if set (currentVerbs_loop resource [] roleRules) \<noteq> set newVerbs then
        (case replaceRules resource newVerbs newRules False of
           (newRules', added) \<Rightarrow>
             updateLoop roleRules resourceToVerbs
               (if \<not> added then newRules' @ [buildRule resource newVerbs] else newRules') True)
      else updateLoop roleRules resourceToVerbs newRules update)"

text \<open>
  \<open>rGet namespace name\<close> is \<^verbatim>\<open>m.rLister.Get(namespace, name)\<close>, \<open>roles\<close> is
  \<^verbatim>\<open>m.mgmt.RBAC.Roles\<close>.
\<close>

definition reconcileManagementPlaneRole ::
  "(string \<Rightarrow> string \<Rightarrow> error + Role) \<Rightarrow> (string \<Rightarrow> 'st RoleInterface) \<Rightarrow> string
     \<Rightarrow> (string \<times> string list) list \<Rightarrow> RoleTemplate \<Rightarrow> 'st \<Rightarrow> error option \<times> 'st" where
  "reconcileManagementPlaneRole rGet roles namespace resourceToVerbs rt s =
     (case rGet namespace (rt_Name rt) of
        Inr role \<Rightarrow>
          (case updateLoop (Rules role) resourceToVerbs (Rules role) False of
             (newRules, update) \<Rightarrow>
               if update then ri_Update (roles namespace) (role\<lparr>Rules := newRules\<rparr>) s
               else (None, s))
      | Inl getErr \<Rightarrow>
          (case ri_Create (roles namespace)
                  \<lparr>role_Name = rt_Name rt, role_Namespace = [], role_OwnerReferences = [],
                   Rules = map (\<lambda>(resource, newVerbs). buildRule resource newVerbs) resourceToVerbs\<rparr> s of
             (Some err, s') \<Rightarrow>
               if \<not> IsAlreadyExists err
               then (Some (Wrapf (''couldn't create role '' @ rt_Name rt) err), s')
               else (None, s')
           | (None, s') \<Rightarrow> (None, s')))"

text \<open>A client that records the role writes and answers each with what \<open>respond\<close> says.\<close>

datatype roleWrite = CreateRole string Role | UpdateRole string Role

definition recordingRoles ::
  "(roleWrite list \<Rightarrow> roleWrite \<Rightarrow> error option) \<Rightarrow> string \<Rightarrow> (roleWrite list) RoleInterface" where
  "recordingRoles respond namespace =
     \<lparr>ri_Create = (\<lambda>role writes. (respond writes (CreateRole namespace role),
                       writes @ [CreateRole namespace role])),
      ri_Update = (\<lambda>role writes. (respond writes (UpdateRole namespace role),
                       writes @ [UpdateRole namespace role]))\<rparr>"

text \<open>
  The verbs a rule list grants on a resource; a role whose verbs on every resource of
  the map are exactly the map's; rule lists in which each rule lists at most one
  resource (as every rule that \<^verbatim>\<open>buildRule\<close> makes does); and the rules that list no
  resource of the map.
\<close>

definition verbsOn :: "string \<Rightarrow> PolicyRule list \<Rightarrow> string set" where
  "verbsOn resource rules =
     (\<Union>rule \<in> {rule \<in> set rules. resource \<in> set (Resources rule)}. set (Verbs rule))"

definition exactVerbs :: "(string \<times> string list) list \<Rightarrow> PolicyRule list \<Rightarrow> bool" where
  "exactVerbs resourceToVerbs rules =
     (\<forall>(resource, verbs) \<in> set resourceToVerbs. verbsOn resource rules = set verbs)"

definition singleResource :: "PolicyRule list \<Rightarrow> bool" where
  "singleResource rules = (\<forall>rule \<in> set rules. length (Resources rule) \<le> 1)"

definition otherRules :: "(string \<times> string list) list \<Rightarrow> PolicyRule list \<Rightarrow> PolicyRule list" where
  "otherRules resourceToVerbs rules =
     filter (\<lambda>rule. \<forall>resource \<in> fst ` set resourceToVerbs. resource \<notin> set (Resources rule)) rules"

text \<open>Existing roles for the witness and the counterexample.\<close>

definition staleRole :: Role where
  "staleRole = \<lparr>role_Name = ''viewer'', role_Namespace = ''p-1'', role_OwnerReferences = [],
     Rules = [buildRule ''projects'' [''get'']]\<rparr>"

definition wideRole :: Role where
  "wideRole = \<lparr>role_Name = ''viewer'', role_Namespace = ''p-1'', role_OwnerReferences = [],
     Rules = [\<lparr>Verbs = [''get''], APIGroups = [''*''], Resources = [''projects'', ''clusters''],
               ResourceNames = []\<rparr>]\<rparr>"

text \<open>One step of the update loop on the rule list.\<close>

definition stepRules :: "string \<Rightarrow> string list \<Rightarrow> PolicyRule list \<Rightarrow> PolicyRule list" where
  "stepRules resource newVerbs rules =
     (let rules' = map (\<lambda>rule. if resource \<in> set (Resources rule)
                                 then buildRule resource newVerbs else rule) rules
      in if \<exists>rule \<in> set rules. resource \<in> set (Resources rule) then rules'
         else rules' @ [buildRule resource newVerbs])"

subsection \<open>grantManagementClusterScopedPrivilegesInProjectNamespace\<close>

text \<open>
  The manager, as far as the function uses it: the listers, whose answers stay as they
  are during one call, and the clients of \<^verbatim>\<open>m.mgmt.RBAC\<close>.
\<close>

record 'st manager =
  rtLister_Get :: "string \<Rightarrow> error + RoleTemplate"
  crLister_Get :: "string \<Rightarrow> error + Role"
  rLister_Get :: "string \<Rightarrow> string \<Rightarrow> error + Role"
  rbLister_List :: "string \<Rightarrow> (string \<times> string) list \<Rightarrow> error + RoleBinding list"
  mgmt_Roles :: "string \<Rightarrow> 'st RoleInterface"
  mgmt_RoleBindings :: "string \<Rightarrow> 'st RoleBindingInterface"

text \<open>A role template binding, with the fields read here.\<close>

record RoleTemplateBinding =
  rtb_Name :: string
  rtb_Namespace :: string
  rtb_UID :: string

text \<open>The package variable, and a lookup in it (a missing key reads as false).\<close>

definition commonClusterAndProjectMgmtPlaneResources :: "(string \<times> bool) list" where
  "commonClusterAndProjectMgmtPlaneResources =
     [(''catalogtemplates'', True), (''catalogtemplateversions'', True)]"

definition lookupBool :: "(string \<times> bool) list \<Rightarrow> string \<Rightarrow> bool" where
  "lookupBool m k = (case map_of m k of None \<Rightarrow> False | Some b \<Rightarrow> b)"

text \<open>The binding that the function stages for a role.\<close>

definition crtbDesiredBinding :: "constants \<Rightarrow> RoleTemplateBinding \<Rightarrow> Subject \<Rightarrow> RoleTemplate
    \<Rightarrow> RoleBinding" where
  "crtbDesiredBinding c binding subject role =
     \<lparr>rb_Name = rtb_Name binding @ ''-'' @ rt_Name role, rb_GenerateName = [], rb_Namespace = [],
      rb_Labels = [(rtb_UID binding, crtbInProjectBindingOwner c)], rb_OwnerReferences = [],
      Subjects = [subject], RoleRef = \<lparr>ref_Kind = ''Role'', ref_Name = rt_Name role\<rparr>\<rparr>"

text \<open>
  The inner loop over the resource map (an association list of resource and API group
  in the order of the visit), threading \<^verbatim>\<open>resourceToVerbs\<close> and \<^verbatim>\<open>desiredRBs\<close>.
\<close>

fun crtbResources_loop :: "constants \<Rightarrow> (string \<Rightarrow> error + Role) \<Rightarrow> RoleTemplateBinding \<Rightarrow> Subject
    \<Rightarrow> RoleTemplate \<Rightarrow> (string \<times> string) list
    \<Rightarrow> (string \<times> string list) list \<Rightarrow> (string \<times> RoleBinding) list
    \<Rightarrow> error + (string \<times> string list) list \<times> (string \<times> RoleBinding) list" where
  "crtbResources_loop c crGet binding subject role [] resourceToVerbs desiredRBs =
     Inr (resourceToVerbs, desiredRBs)"
| "crtbResources_loop c crGet binding subject role ((resource, apiGroup) # resources)
       resourceToVerbs desiredRBs =
     (if \<not> Administrative role \<and> lookupBool commonClusterAndProjectMgmtPlaneResources resource
      then crtbResources_loop c crGet binding subject role resources resourceToVerbs desiredRBs
      else
        (case checkForManagementPlaneRules crGet role resource apiGroup of
           Inl err \<Rightarrow> Inl err
         | Inr verbs \<Rightarrow>
             if length verbs > 0 then
               crtbResources_loop c crGet binding subject role resources
                 (AList.update resource verbs resourceToVerbs)
                 (let bindingName = rtb_Name binding @ ''-'' @ rt_Name role in
                  if map_of desiredRBs bindingName = None
                  then AList.update bindingName (crtbDesiredBinding c binding subject role) desiredRBs
                  else desiredRBs)
             else crtbResources_loop c crGet binding subject role resources
                    resourceToVerbs desiredRBs))"

text \<open>The outer loop over the gathered roles, threading \<^verbatim>\<open>desiredRBs\<close> and the store.\<close>

fun crtbRoles_loop :: "constants \<Rightarrow> 'st manager \<Rightarrow> string \<Rightarrow> (string \<times> string) list \<Rightarrow> Subject
    \<Rightarrow> RoleTemplateBinding \<Rightarrow> (string \<times> RoleTemplate) list \<Rightarrow> (string \<times> RoleBinding) list \<Rightarrow> 'st
    \<Rightarrow> (error + (string \<times> RoleBinding) list) \<times> 'st" where
  "crtbRoles_loop c m projectNamespace resources subject binding [] desiredRBs s =
     (Inr desiredRBs, s)"
| "crtbRoles_loop c m projectNamespace resources subject binding ((k, role) # roles) desiredRBs s =
     (case crtbResources_loop c (crLister_Get m) binding subject role resources [] desiredRBs of
        Inl err \<Rightarrow> (Inl err, s)
      | Inr (resourceToVerbs, desiredRBs') \<Rightarrow>
          if length resourceToVerbs > 0 then
            (case reconcileManagementPlaneRole (rLister_Get m) (mgmt_Roles m) projectNamespace
                    resourceToVerbs role s of
               (Some err, s') \<Rightarrow> (Inl err, s')
             | (None, s') \<Rightarrow>
                 crtbRoles_loop c m projectNamespace resources subject binding roles desiredRBs' s')
          else crtbRoles_loop c m projectNamespace resources subject binding roles desiredRBs' s)"

text \<open>\<^verbatim>\<open>for _, rb := range current { currentRBs[rb.Name] = rb }\<close>.\<close>

fun currentByName :: "RoleBinding list \<Rightarrow> (string \<times> RoleBinding) list \<Rightarrow> (string \<times> RoleBinding) list" where
  "currentByName [] currentRBs = currentRBs"
| "currentByName (rb # current) currentRBs =
     currentByName current (AList.update (rb_Name rb) rb currentRBs)"

text \<open>The function; \<open>None\<close> when the walk of the role templates does not return.\<close>

definition grantManagementClusterScopedPrivilegesInProjectNamespace ::
  "constants \<Rightarrow> 'st manager \<Rightarrow> string \<Rightarrow> string \<Rightarrow> (string \<times> string) list \<Rightarrow> Subject
     \<Rightarrow> RoleTemplateBinding \<Rightarrow> 'st \<Rightarrow> (error option \<times> 'st) option" where
  "grantManagementClusterScopedPrivilegesInProjectNamespace c m roleTemplateName projectNamespace
       resources subject binding s =
     (case gatherAndDedupeRoles (rtLister_Get m) roleTemplateName of
        None \<Rightarrow> None
      | Some (Inl err) \<Rightarrow> Some (Some err, s)
      | Some (Inr roles) \<Rightarrow>
          Some
            (case crtbRoles_loop c m projectNamespace resources subject binding roles [] s of
               (Inl err, s') \<Rightarrow> (Some err, s')
             | (Inr desiredRBs, s') \<Rightarrow>
                 (case rbLister_List m projectNamespace
                         [(rtb_UID binding, crtbInProjectBindingOwner c)] of
                    Inl err \<Rightarrow> (Some err, s')
                  | Inr current \<Rightarrow>
                      reconcileDesiredMGMTPlaneRoleBindings (currentByName current [])
                        desiredRBs (mgmt_RoleBindings m projectNamespace) s')))"

text \<open>
  For the claim: the resources the loop skips for a role, and what the loop stages on
  a resource that it does not skip.
\<close>

definition skipped :: "RoleTemplate \<Rightarrow> string \<Rightarrow> bool" where
  "skipped role resource =
     (\<not> Administrative role
      \<and> (resource = ''catalogtemplates'' \<or> resource = ''catalogtemplateversions''))"

definition stagedVerbs :: "(string \<Rightarrow> error + Role) \<Rightarrow> RoleTemplate \<Rightarrow> (string \<times> string) list
    \<Rightarrow> string \<Rightarrow> string list option" where
  "stagedVerbs crGet role resources resource =
     (case map_of resources resource of
        None \<Rightarrow> None
      | Some apiGroup \<Rightarrow>
          if skipped role resource then None
          else (case checkForManagementPlaneRules crGet role resource apiGroup of
                  Inl err \<Rightarrow> None
                | Inr verbs \<Rightarrow> if verbs = [] then None else Some verbs))"

text \<open>Templates that grant get on catalog templates and on projects, for the witness.\<close>

definition catalogRule :: PolicyRule where
  "catalogRule = \<lparr>Verbs = [''get''], APIGroups = [''management.cattle.io''],
     Resources = [''catalogtemplates'', ''projects''], ResourceNames = []\<rparr>"

definition clusterMember :: RoleTemplate where
  "clusterMember = \<lparr>rt_Name = ''cluster-member'', rt_Rules = [catalogRule], External = False,
     Builtin = True, Context = ''cluster'', Administrative = False, RoleTemplateNames = []\<rparr>"

definition clusterOwner :: RoleTemplate where
  "clusterOwner = \<lparr>rt_Name = ''cluster-owner'', rt_Rules = [catalogRule], External = False,
     Builtin = True, Context = ''cluster'', Administrative = True, RoleTemplateNames = []\<rparr>"

definition someBinding :: RoleTemplateBinding where
  "someBinding = \<lparr>rtb_Name = ''crtb-1'', rtb_Namespace = ''c-1'', rtb_UID = ''uid-1''\<rparr>"

subsection \<open>waitUntilSSHKey\<close>

text \<open>
  The world the loop runs in (the function is in the node provisioning file of the
  sources): \<open>keyExists env t\<close> tells whether \<^verbatim>\<open>os.Stat(keyPath)\<close>
  succeeds at the poll whose clock reading is \<open>t\<close>, and \<open>lag env t\<close> is the time that
  passes between two clock readings beyond the sleep asked for. The clock is read in
  nanoseconds since \<^verbatim>\<open>startTime\<close> (\<^verbatim>\<open>time.Now\<close> is monotonic); \<^verbatim>\<open>time.Sleep\<close>
  pauses for at least the duration asked.
\<close>

record environment =
  keyExists :: "nat \<Rightarrow> bool"
  lag :: "nat \<Rightarrow> nat"

definition second :: nat where
  "second = 1000000000"

text \<open>
  The state of the loop: the clock reading at the head of the iteration, the variable
  \<^verbatim>\<open>increments\<close>, the seconds slept so far and the readings of the polls that did not
  find the file.
\<close>

record waiting =
  now :: nat
  increments :: nat
  sleeps :: "nat list"
  missed :: "nat list"

partial_function (option) waitUntilSSHKey_loop ::
  "environment \<Rightarrow> waiting \<Rightarrow> (error option \<times> waiting) option" where
  "waitUntilSSHKey_loop env w =
     (if now w > 15 * second then Some (Some (Timeout ''Timeout waiting for ssh key''), w)
      else if \<not> keyExists env (now w) then
        waitUntilSSHKey_loop env
          (w\<lparr>now := now w + increments w * second + lag env (now w),
             increments := increments w * 2,
             sleeps := sleeps w @ [increments w],
             missed := missed w @ [now w]\<rparr>)
      else Some (None, w))"

text \<open>The function, with the first clock reading of the loop.\<close>

definition waitUntilSSHKey :: "environment \<Rightarrow> nat \<Rightarrow> (error option \<times> waiting) option" where
  "waitUntilSSHKey env t0 =
     waitUntilSSHKey_loop env \<lparr>now = t0, increments = 1, sleeps = [], missed = []\<rparr>"

subsection \<open>The object store\<close>

text \<open>
  Modelled from the spec: the Object Store Client and its cache are not in the
  sources. Following sections 2, 6 and 9 of the specification, the store holds the
  objects of each kind, keyed by namespace and name, with typed Get, Create, Update
  and Delete; listers and indexers read the same objects, their indexes rebuilt on
  every write. A cluster-scoped object has the empty namespace. \<open>gen\<close>, a parameter
  of the model, gives the suffix the store appends to \<^verbatim>\<open>GenerateName\<close>.
\<close>

record store =
  st_ClusterRoles :: "Role list"
  st_Roles :: "Role list"
  st_ClusterRoleBindings :: "RoleBinding list"
  st_RoleBindings :: "RoleBinding list"

datatype roleClient = ClusterRolesClient | RolesClient string

datatype bindingClient = ClusterRoleBindingsClient | RoleBindingsClient string

fun rolesOf :: "roleClient \<Rightarrow> store \<Rightarrow> Role list" where
  "rolesOf ClusterRolesClient s = st_ClusterRoles s"
| "rolesOf (RolesClient namespace) s = st_Roles s"

fun setRoles :: "roleClient \<Rightarrow> Role list \<Rightarrow> store \<Rightarrow> store" where
  "setRoles ClusterRolesClient rs s = s\<lparr>st_ClusterRoles := rs\<rparr>"
| "setRoles (RolesClient namespace) rs s = s\<lparr>st_Roles := rs\<rparr>"

fun roleNamespace :: "roleClient \<Rightarrow> string" where
  "roleNamespace ClusterRolesClient = []"
| "roleNamespace (RolesClient namespace) = namespace"

fun bindingsOf :: "bindingClient \<Rightarrow> store \<Rightarrow> RoleBinding list" where
  "bindingsOf ClusterRoleBindingsClient s = st_ClusterRoleBindings s"
| "bindingsOf (RoleBindingsClient namespace) s = st_RoleBindings s"

fun setBindings :: "bindingClient \<Rightarrow> RoleBinding list \<Rightarrow> store \<Rightarrow> store" where
  "setBindings ClusterRoleBindingsClient bs s = s\<lparr>st_ClusterRoleBindings := bs\<rparr>"
| "setBindings (RoleBindingsClient namespace) bs s = s\<lparr>st_RoleBindings := bs\<rparr>"

fun bindingNamespace :: "bindingClient \<Rightarrow> string" where
  "bindingNamespace ClusterRoleBindingsClient = []"
| "bindingNamespace (RoleBindingsClient namespace) = namespace"

definition isRole :: "string \<Rightarrow> string \<Rightarrow> Role \<Rightarrow> bool" where
  "isRole namespace name r = (role_Namespace r = namespace \<and> role_Name r = name)"

definition isBinding :: "string \<Rightarrow> string \<Rightarrow> RoleBinding \<Rightarrow> bool" where
  "isBinding namespace name rb = (rb_Namespace rb = namespace \<and> rb_Name rb = name)"

text \<open>Modelled from the spec: a lister's Get, NotFound when there is no such object.\<close>

definition listerGetRole :: "Role list \<Rightarrow> string \<Rightarrow> string \<Rightarrow> error + Role" where
  "listerGetRole rs namespace name =
     (case find (isRole namespace name) rs of None \<Rightarrow> Inl NotFound | Some r \<Rightarrow> Inr r)"

text \<open>
  Modelled from the spec: Create of a role through a client. The object gets the
  client's namespace; a second object of the same namespace and name is refused.
\<close>

definition createRole :: "roleClient \<Rightarrow> Role \<Rightarrow> store \<Rightarrow> error option \<times> store" where
  "createRole client role s =
     (let obj = role\<lparr>role_Namespace := roleNamespace client\<rparr> in
      if \<exists>r \<in> set (rolesOf client s). isRole (roleNamespace client) (role_Name obj) r
      then (Some AlreadyExists, s)
      else (None, setRoles client (rolesOf client s @ [obj]) s))"

text \<open>
  Modelled from the spec: Create, Update and Delete of a binding through a client. A
  created object gets the client's namespace and, when it has no name, the name
  \<^verbatim>\<open>GenerateName\<close> followed by the suffix of the store's choice. An update or a
  create of an object of another namespace than the client's, or an update under
  another name than the object's, is a bad request.
\<close>

definition createBinding :: "(store \<Rightarrow> string) \<Rightarrow> bindingClient \<Rightarrow> RoleBinding \<Rightarrow> store
    \<Rightarrow> error option \<times> store" where
  "createBinding gen client rb s =
     (let namespace = bindingNamespace client;
          name = (if rb_Name rb = [] then rb_GenerateName rb @ gen s else rb_Name rb);
          obj = rb\<lparr>rb_Name := name, rb_Namespace := namespace\<rparr> in
      if rb_Namespace rb \<noteq> [] \<and> rb_Namespace rb \<noteq> namespace then (Some BadRequest, s)
      else if \<exists>b \<in> set (bindingsOf client s). isBinding namespace name b
      then (Some AlreadyExists, s)
      else (None, setBindings client (bindingsOf client s @ [obj]) s))"

definition updateBinding :: "bindingClient \<Rightarrow> string \<Rightarrow> RoleBinding \<Rightarrow> store
    \<Rightarrow> error option \<times> store" where
  "updateBinding client name rb s =
     (let namespace = bindingNamespace client in
      if rb_Namespace rb \<noteq> namespace \<or> rb_Name rb \<noteq> name then (Some BadRequest, s)
      else if \<exists>b \<in> set (bindingsOf client s). isBinding namespace name b
      then (None, setBindings client
              (map (\<lambda>b. if isBinding namespace name b then rb else b) (bindingsOf client s)) s)
      else (Some NotFound, s))"

definition deleteBinding :: "bindingClient \<Rightarrow> string \<Rightarrow> store \<Rightarrow> error option \<times> store" where
  "deleteBinding client name s =
     (let namespace = bindingNamespace client in
      if \<exists>b \<in> set (bindingsOf client s). isBinding namespace name b
      then (None, setBindings client
              (filter (\<lambda>b. \<not> isBinding namespace name b) (bindingsOf client s)) s)
      else (Some NotFound, s))"

text \<open>
  Modelled from the spec: the indexes. \<^verbatim>\<open>rbRoleSubjectKey\<close>, the composite key of
  role and subject, is the pair; a binding stands in the role and subject index under
  the key of its role with each of its subjects. A binding stands in the index of
  membership binding owners under its namespace with each label whose value is
  \<^verbatim>\<open>membershipBindingOwner\<close>; the key the code looks up, namespace, "/" and the
  binding UID, is the pair of the two (a namespace has no "/"). An index has no order
  of its own: \<open>ByIndex\<close> returns the objects that stand under the key in the order
  \<open>order\<close> gives them, a parameter of each call of the functions that read an index.
\<close>

definition rbRoleSubjectKey :: "string \<Rightarrow> Subject \<Rightarrow> string \<times> Subject" where
  "rbRoleSubjectKey roleName subject = (roleName, subject)"

definition rbByRoleAndSubject :: "RoleBinding \<Rightarrow> (string \<times> Subject) list" where
  "rbByRoleAndSubject rb = map (rbRoleSubjectKey (ref_Name (RoleRef rb))) (Subjects rb)"

definition indexByMembershipBindingOwner :: "constants \<Rightarrow> RoleBinding \<Rightarrow> (string \<times> string) list" where
  "indexByMembershipBindingOwner c rb =
     map (\<lambda>(k, v). (rb_Namespace rb, k))
       (filter (\<lambda>(k, v). v = membershipBindingOwner c) (rb_Labels rb))"

type_synonym indexOrder = "RoleBinding list \<Rightarrow> RoleBinding list"

definition ByIndex :: "indexOrder \<Rightarrow> (RoleBinding \<Rightarrow> 'k list) \<Rightarrow> 'k \<Rightarrow> RoleBinding list
    \<Rightarrow> RoleBinding list" where
  "ByIndex order indexFunc key bs = order (filter (\<lambda>rb. key \<in> set (indexFunc rb)) bs)"

text \<open>The two indexers of the manager: what they hold, with its dynamic type.\<close>

datatype indexer = crbIndexer | rbIndexer

fun indexed :: "indexer \<Rightarrow> store \<Rightarrow> RoleBinding list" where
  "indexed crbIndexer s = st_ClusterRoleBindings s"
| "indexed rbIndexer s = st_RoleBindings s"

fun asObj :: "indexer \<Rightarrow> RoleBinding \<Rightarrow> obj" where
  "asObj crbIndexer rb = ClusterRoleBindingObj rb"
| "asObj rbIndexer rb = RoleBindingObj rb"

definition byMembershipBindingOwner :: "indexOrder \<Rightarrow> constants \<Rightarrow> indexer \<Rightarrow> string \<Rightarrow> string
    \<Rightarrow> store \<Rightarrow> obj list" where
  "byMembershipBindingOwner order c index namespace rtbUID s =
     map (asObj index)
       (ByIndex order (indexByMembershipBindingOwner c) (namespace, rtbUID) (indexed index s))"

definition byRoleAndSubject :: "indexOrder \<Rightarrow> indexer \<Rightarrow> string \<times> Subject \<Rightarrow> store \<Rightarrow> obj list" where
  "byRoleAndSubject order index key s =
     map (asObj index) (ByIndex order rbByRoleAndSubject key (indexed index s))"

subsection \<open>Membership roles\<close>

text \<open>The cluster or project a membership role is for: its type and object metadata.\<close>

record ownerObject =
  oo_APIVersion :: string
  oo_Kind :: string
  oo_Name :: string
  oo_UID :: string

text \<open>
  \<^verbatim>\<open>createMembershipRole\<close>. Its two accessor calls cannot fail on a cluster or a
  project. The object it creates is a ClusterRole value also when the client is one of
  Roles; the store keeps it as an object of the client's kind.
\<close>

definition createMembershipRole :: "string \<Rightarrow> string \<Rightarrow> bool \<Rightarrow> ownerObject \<Rightarrow> roleClient \<Rightarrow> store
    \<Rightarrow> error option \<times> store" where
  "createMembershipRole resourceType roleName makeOwner ownerObject client s =
     createRole client
       \<lparr>role_Name = roleName, role_Namespace = [],
        role_OwnerReferences =
          [\<lparr>own_APIVersion = oo_APIVersion ownerObject, own_Kind = oo_Kind ownerObject,
            own_Name = oo_Name ownerObject, own_UID = oo_UID ownerObject\<rparr>],
        Rules = [\<lparr>Verbs = (if makeOwner then [''*''] else [''get'']),
                  APIGroups = [''management.cattle.io''], Resources = [resourceType],
                  ResourceNames = [oo_Name ownerObject]\<rparr>]\<rparr> s"

definition createClusterMembershipRole :: "constants \<Rightarrow> string \<Rightarrow> ownerObject \<Rightarrow> bool \<Rightarrow> store
    \<Rightarrow> error option \<times> store" where
  "createClusterMembershipRole c roleName cluster makeOwner s =
     (case listerGetRole (st_ClusterRoles s) [] roleName of
        Inl err \<Rightarrow>
          createMembershipRole (clusterResource c) roleName makeOwner cluster ClusterRolesClient s
      | Inr cr \<Rightarrow> (None, s))"

definition createProjectMembershipRole :: "constants \<Rightarrow> string \<Rightarrow> string \<Rightarrow> ownerObject \<Rightarrow> bool
    \<Rightarrow> store \<Rightarrow> error option \<times> store" where
  "createProjectMembershipRole c roleName namespace project makeOwner s =
     (case listerGetRole (st_Roles s) namespace roleName of
        Inl err \<Rightarrow>
          createMembershipRole (projectResource c) roleName makeOwner project
            (RolesClient namespace) s
      | Inr cr \<Rightarrow> (None, s))"

subsection \<open>reconcileMembershipBindingForDelete\<close>

text \<open>
  The loop over the labels of a binding: it deletes the label of the binding UID from
  the map and notes whether another label has the owner value. The labels visited are
  those the map had when the loop began.
\<close>

fun labels_loop :: "constants \<Rightarrow> string \<Rightarrow> (string \<times> string) list \<Rightarrow> (string \<times> string) list \<Rightarrow> bool
    \<Rightarrow> (string \<times> string) list \<times> bool" where
  "labels_loop c rtbUID [] labels otherOwners = (labels, otherOwners)"
| "labels_loop c rtbUID ((k, v) # visit) labels otherOwners =
     (if k = rtbUID \<and> v = membershipBindingOwner c
      then labels_loop c rtbUID visit (AList.delete k labels) otherOwners
      else if v = membershipBindingOwner c
      then labels_loop c rtbUID visit labels True
      else labels_loop c rtbUID visit labels otherOwners)"

text \<open>
  The labels are deleted in the map of the cached object itself, before the client is
  called: \<open>setLabels\<close> is that write to the object in the role binding cache.
\<close>

definition setLabels :: "RoleBinding \<Rightarrow> (string \<times> string) list \<Rightarrow> store \<Rightarrow> store" where
  "setLabels rbb labels s =
     s\<lparr>st_RoleBindings :=
         map (\<lambda>b. if isBinding (rb_Namespace rbb) (rb_Name rbb) b then b\<lparr>rb_Labels := labels\<rparr> else b)
           (st_RoleBindings s)\<rparr>"

text \<open>
  The loop over the bindings of the index. An object that is not a \<^verbatim>\<open>*v1.RoleBinding\<close>
  is passed over. The calls of \<^verbatim>\<open>IndexKeys\<close> and \<^verbatim>\<open>GetByKey\<close> before the loop only
  feed the log.
\<close>

fun reconcileMembershipBindingForDelete_loop ::
  "constants \<Rightarrow> string \<Rightarrow> string \<Rightarrow> (obj \<Rightarrow> error + string) \<Rightarrow> bindingClient \<Rightarrow> obj list \<Rightarrow> store
     \<Rightarrow> error option \<times> store" where
  "reconcileMembershipBindingForDelete_loop c roleToKeep rtbUID convert client [] s = (None, s)"
| "reconcileMembershipBindingForDelete_loop c roleToKeep rtbUID convert client (rb # roleBindings) s =
     (case rb of
        ClusterRoleBindingObj crb \<Rightarrow>
          reconcileMembershipBindingForDelete_loop c roleToKeep rtbUID convert client roleBindings s
      | RoleBindingObj rbb \<Rightarrow>
          (case convert (RoleBindingObj rbb) of
             Inl err \<Rightarrow> (Some err, s)
           | Inr roleName \<Rightarrow>
               if roleName = roleToKeep then
                 reconcileMembershipBindingForDelete_loop c roleToKeep rtbUID convert client
                   roleBindings s
               else
                 (case labels_loop c rtbUID (rb_Labels rbb) (rb_Labels rbb) False of
                    (labels, otherOwners) \<Rightarrow>
                      let s1 = setLabels rbb labels s in
                      if \<not> otherOwners then
                        (case deleteBinding client (rb_Name rbb) s1 of
                           (Some err, s2) \<Rightarrow>
                             if IsNotFound err then
                               reconcileMembershipBindingForDelete_loop c roleToKeep rtbUID
                                 convert client roleBindings s2
                             else (Some err, s2)
                         | (None, s2) \<Rightarrow>
                             reconcileMembershipBindingForDelete_loop c roleToKeep rtbUID
                               convert client roleBindings s2)
                      else
                        (case updateBinding client (rb_Name rbb) (rbb\<lparr>rb_Labels := labels\<rparr>) s1 of
                           (Some err, s2) \<Rightarrow> (Some err, s2)
                         | (None, s2) \<Rightarrow>
                             reconcileMembershipBindingForDelete_loop c roleToKeep rtbUID
                               convert client roleBindings s2))))"

definition reconcileMembershipBindingForDelete ::
  "indexOrder \<Rightarrow> constants \<Rightarrow> string \<Rightarrow> string \<Rightarrow> string \<Rightarrow> indexer \<Rightarrow> (obj \<Rightarrow> error + string)
     \<Rightarrow> bindingClient \<Rightarrow> store \<Rightarrow> error option \<times> store" where
  "reconcileMembershipBindingForDelete order c namespace roleToKeep rtbUID index convert client s =
     reconcileMembershipBindingForDelete_loop c roleToKeep rtbUID convert client
       (byMembershipBindingOwner order c index namespace rtbUID s) s"

text \<open>
  The two \<^verbatim>\<open>convert\<close> closures: each asserts its own type and reads
  \<^verbatim>\<open>rb.RoleRef.Name\<close>, through a nil pointer when the assertion fails.
\<close>

definition convertClusterRoleBinding :: "obj \<Rightarrow> error + string" where
  "convertClusterRoleBinding i =
     (case i of ClusterRoleBindingObj rb \<Rightarrow> Inr (ref_Name (RoleRef rb))
      | RoleBindingObj rb \<Rightarrow> Inl PanicNilDereference)"

definition convertRoleBinding :: "obj \<Rightarrow> error + string" where
  "convertRoleBinding i =
     (case i of RoleBindingObj rb \<Rightarrow> Inr (ref_Name (RoleRef rb))
      | ClusterRoleBindingObj rb \<Rightarrow> Inl PanicNilDereference)"

definition reconcileClusterMembershipBindingForDelete ::
  "indexOrder \<Rightarrow> constants \<Rightarrow> string \<Rightarrow> string \<Rightarrow> store \<Rightarrow> error option \<times> store" where
  "reconcileClusterMembershipBindingForDelete order c roleToKeep rtbUID s =
     reconcileMembershipBindingForDelete order c [] roleToKeep rtbUID crbIndexer
       convertClusterRoleBinding ClusterRoleBindingsClient s"

definition reconcileProjectMembershipBindingForDelete ::
  "indexOrder \<Rightarrow> constants \<Rightarrow> string \<Rightarrow> string \<Rightarrow> string \<Rightarrow> store \<Rightarrow> error option \<times> store" where
  "reconcileProjectMembershipBindingForDelete order c namespace roleToKeep rtbUID s =
     reconcileMembershipBindingForDelete order c namespace roleToKeep rtbUID rbIndexer
       convertRoleBinding (RoleBindingsClient namespace) s"

subsection \<open>ensureClusterMembershipBinding and ensureProjectMembershipBinding\<close>

text \<open>
  The loop over the bindings of the owner index that looks for a binding of the same
  role and subject. It reads \<^verbatim>\<open>Subjects[0]\<close> of every binding whose number of
  subjects is not 1, which panics when there is none.
\<close>

fun clusterCandidates_loop :: "string \<times> Subject \<Rightarrow> obj list \<Rightarrow> RoleBinding option
    \<Rightarrow> error + RoleBinding option" where
  "clusterCandidates_loop key [] crb = Inr crb"
| "clusterCandidates_loop key (i # crbs) crb =
     (case i of
        ClusterRoleBindingObj iCRB \<Rightarrow>
          if length (Subjects iCRB) \<noteq> 1 then
            (case Subjects iCRB of
               [] \<Rightarrow> Inl PanicIndexOutOfRange
             | subject0 # subjects \<Rightarrow>
                 if rbRoleSubjectKey (ref_Name (RoleRef iCRB)) subject0 = key
                 then clusterCandidates_loop key crbs (Some iCRB)
                 else clusterCandidates_loop key crbs crb)
          else clusterCandidates_loop key crbs crb
      | RoleBindingObj iRB \<Rightarrow> clusterCandidates_loop key crbs crb)"

fun projectCandidates_loop :: "string \<times> Subject \<Rightarrow> obj list \<Rightarrow> RoleBinding option
    \<Rightarrow> error + RoleBinding option" where
  "projectCandidates_loop key [] rb = Inr rb"
| "projectCandidates_loop key (i # rbs) rb =
     (case i of
        RoleBindingObj iRB \<Rightarrow>
          if length (Subjects iRB) \<noteq> 1 then
            (case Subjects iRB of
               [] \<Rightarrow> Inl PanicIndexOutOfRange
             | subject0 # subjects \<Rightarrow>
                 if rbRoleSubjectKey (ref_Name (RoleRef iRB)) subject0 = key
                 then projectCandidates_loop key rbs (Some iRB)
                 else projectCandidates_loop key rbs rb)
          else projectCandidates_loop key rbs rb
      | ClusterRoleBindingObj iCRB \<Rightarrow> projectCandidates_loop key rbs rb)"

text \<open>
  The functions. The first object of the role and subject index is asserted to be of
  the function's own binding type; its labels are read through a nil pointer when it
  is not.
\<close>

definition ensureClusterMembershipBinding ::
  "indexOrder \<Rightarrow> constants \<Rightarrow> (store \<Rightarrow> string) \<Rightarrow> string \<Rightarrow> string \<Rightarrow> ownerObject \<Rightarrow> bool \<Rightarrow> Subject
     \<Rightarrow> store \<Rightarrow> error option \<times> store" where
  "ensureClusterMembershipBinding order c gen roleName rtbUID cluster makeOwner subject s =
     (case createClusterMembershipRole c roleName cluster makeOwner s of
        (Some err, s1) \<Rightarrow> (Some err, s1)
      | (None, s1) \<Rightarrow>
          let key = rbRoleSubjectKey roleName subject in
          (case clusterCandidates_loop key (byMembershipBindingOwner order c crbIndexer [] rtbUID s1)
                  None of
             Inl err \<Rightarrow> (Some err, s1)
           | Inr crb \<Rightarrow>
               (case reconcileClusterMembershipBindingForDelete order c roleName rtbUID s1 of
                  (Some err, s2) \<Rightarrow> (Some err, s2)
                | (None, s2) \<Rightarrow>
                    if crb \<noteq> None then (None, s2)
                    else
                      (case byRoleAndSubject order crbIndexer key s2 of
                         [] \<Rightarrow>
                           createBinding gen ClusterRoleBindingsClient
                             \<lparr>rb_Name = [], rb_GenerateName = ''clusterrolebinding-'',
                              rb_Namespace = [],
                              rb_Labels = [(rtbUID, membershipBindingOwner c)],
                              rb_OwnerReferences = [], Subjects = [subject],
                              RoleRef = \<lparr>ref_Kind = ''ClusterRole'', ref_Name = roleName\<rparr>\<rparr> s2
                       | obj0 # objs \<Rightarrow>
                           (case obj0 of
                              RoleBindingObj rb \<Rightarrow> (Some PanicNilDereference, s2)
                            | ClusterRoleBindingObj crb0 \<Rightarrow>
                                if rtbUID \<in> fst ` set (rb_Labels crb0) then (None, s2)
                                else updateBinding ClusterRoleBindingsClient (rb_Name crb0)
                                       (crb0\<lparr>rb_Labels :=
                                          AList.update rtbUID (membershipBindingOwner c) (rb_Labels crb0)\<rparr>)
                                       s2)))))"

definition ensureProjectMembershipBinding ::
  "indexOrder \<Rightarrow> constants \<Rightarrow> (store \<Rightarrow> string) \<Rightarrow> string \<Rightarrow> string \<Rightarrow> string \<Rightarrow> ownerObject \<Rightarrow> bool
     \<Rightarrow> Subject \<Rightarrow> store \<Rightarrow> error option \<times> store" where
  "ensureProjectMembershipBinding order c gen roleName rtbUID namespace project makeOwner subject s =
     (case createProjectMembershipRole c roleName namespace project makeOwner s of
        (Some err, s1) \<Rightarrow> (Some err, s1)
      | (None, s1) \<Rightarrow>
          let key = rbRoleSubjectKey roleName subject in
          (case projectCandidates_loop key
                  (byMembershipBindingOwner order c rbIndexer namespace rtbUID s1) None of
             Inl err \<Rightarrow> (Some err, s1)
           | Inr rb \<Rightarrow>
               (case reconcileProjectMembershipBindingForDelete order c namespace roleName rtbUID s1 of
                  (Some err, s2) \<Rightarrow> (Some err, s2)
                | (None, s2) \<Rightarrow>
                    if rb \<noteq> None then (None, s2)
                    else
                      (case byRoleAndSubject order rbIndexer key s2 of
                         [] \<Rightarrow>
                           createBinding gen (RoleBindingsClient namespace)
                             \<lparr>rb_Name = [], rb_GenerateName = ''rolebinding-'',
                              rb_Namespace = [],
                              rb_Labels = [(rtbUID, membershipBindingOwner c)],
                              rb_OwnerReferences = [], Subjects = [subject],
                              RoleRef = \<lparr>ref_Kind = ''Role'', ref_Name = roleName\<rparr>\<rparr> s2
                       | obj0 # objs \<Rightarrow>
                           (case obj0 of
                              ClusterRoleBindingObj crb \<Rightarrow> (Some PanicNilDereference, s2)
                            | RoleBindingObj rb0 \<Rightarrow>
                                if rtbUID \<in> fst ` set (rb_Labels rb0) then (None, s2)
                                else updateBinding (RoleBindingsClient namespace) (rb_Name rb0)
                                       (rb0\<lparr>rb_Labels :=
                                          AList.update rtbUID (membershipBindingOwner c) (rb_Labels rb0)\<rparr>)
                                       s2)))))"

text \<open>
  A store is well-formed when no two objects of a kind have the same namespace and
  name, and cluster role bindings have the empty namespace.
\<close>

definition wellFormed :: "store \<Rightarrow> bool" where
  "wellFormed s =
     (distinct (map (\<lambda>b. (rb_Namespace b, rb_Name b)) (st_RoleBindings s))
      \<and> distinct (map rb_Name (st_ClusterRoleBindings s))
      \<and> (\<forall>b \<in> set (st_ClusterRoleBindings s). rb_Namespace b = []))"

text \<open>
  An order in which an index may return its objects gives back the objects it is
  given, as many as they are: the objects under a key of an index are distinct, so it
  permutes them.
\<close>

definition reorders :: "indexOrder \<Rightarrow> bool" where
  "reorders order = (\<forall>objs. set (order objs) = set objs \<and> length (order objs) = length objs)"

text \<open>
  The invariant of the membership bindings in the specification (section 2): at most
  one binding has the role and the subject.
\<close>

definition oneBinding :: "string \<Rightarrow> Subject \<Rightarrow> RoleBinding list \<Rightarrow> bool" where
  "oneBinding roleName subject bs =
     (length (filter (\<lambda>rb. rbRoleSubjectKey roleName subject \<in> set (rbByRoleAndSubject rb)) bs) \<le> 1)"

text \<open>Stores and arguments for the witnesses and counterexamples.\<close>

definition memberSubject :: Subject where
  "memberSubject = \<lparr>subj_Kind = ''User'', subj_APIGroup = ''rbac.authorization.k8s.io'',
     subj_Name = ''u-1'', subj_Namespace = []\<rparr>"

definition someCluster :: ownerObject where
  "someCluster = \<lparr>oo_APIVersion = ''management.cattle.io/v3'', oo_Kind = ''Cluster'',
     oo_Name = ''c-1'', oo_UID = ''cluster-uid''\<rparr>"

definition someProject :: ownerObject where
  "someProject = \<lparr>oo_APIVersion = ''management.cattle.io/v3'', oo_Kind = ''Project'',
     oo_Name = ''p-1'', oo_UID = ''project-uid''\<rparr>"

definition oldBinding :: "string \<Rightarrow> string \<Rightarrow> Subject list \<Rightarrow> RoleBinding" where
  "oldBinding namespace roleName subjects =
     \<lparr>rb_Name = ''binding-old'', rb_GenerateName = [], rb_Namespace = namespace,
      rb_Labels = [(''uid-1'', ''owner'')], rb_OwnerReferences = [], Subjects = subjects,
      RoleRef = \<lparr>ref_Kind = ''Role'', ref_Name = roleName\<rparr>\<rparr>"

definition generated :: "store \<Rightarrow> string" where
  "generated s = replicate (length (st_ClusterRoleBindings s) + length (st_RoleBindings s)) CHR ''x''"

definition emptyStore :: store where
  "emptyStore = \<lparr>st_ClusterRoles = [], st_Roles = [], st_ClusterRoleBindings = [],
     st_RoleBindings = []\<rparr>"

text \<open>
  For the proofs: the bindings tagged with a binding UID in a namespace; what the
  reconcile-for-delete loop of a project does to one binding; the candidate of a list
  of bindings none of which lacks a subject.
\<close>

definition bindingKey :: "RoleBinding \<Rightarrow> string \<times> string" where
  "bindingKey rb = (rb_Namespace rb, rb_Name rb)"

definition tagged :: "constants \<Rightarrow> string \<Rightarrow> string \<Rightarrow> RoleBinding \<Rightarrow> bool" where
  "tagged c namespace rtbUID rb =
     (rb_Namespace rb = namespace \<and> (rtbUID, membershipBindingOwner c) \<in> set (rb_Labels rb))"

definition otherOwnersOf :: "constants \<Rightarrow> string \<Rightarrow> RoleBinding \<Rightarrow> bool" where
  "otherOwnersOf c rtbUID rb =
     (\<exists>(k, v) \<in> set (rb_Labels rb). v = membershipBindingOwner c \<and> k \<noteq> rtbUID)"

definition stripped :: "string \<Rightarrow> RoleBinding \<Rightarrow> RoleBinding" where
  "stripped rtbUID rb = rb\<lparr>rb_Labels := AList.delete rtbUID (rb_Labels rb)\<rparr>"

definition reconciled :: "constants \<Rightarrow> string \<Rightarrow> string \<Rightarrow> string \<Rightarrow> RoleBinding \<Rightarrow> RoleBinding option" where
  "reconciled c namespace roleToKeep rtbUID rb =
     (if tagged c namespace rtbUID rb \<and> ref_Name (RoleRef rb) \<noteq> roleToKeep
      then (if otherOwnersOf c rtbUID rb then Some (stripped rtbUID rb) else None)
      else Some rb)"

fun candidates :: "string \<times> Subject \<Rightarrow> RoleBinding list \<Rightarrow> RoleBinding option \<Rightarrow> RoleBinding option" where
  "candidates key [] found = found"
| "candidates key (rb # rbs) found =
     candidates key rbs
       (if length (Subjects rb) \<noteq> 1 \<and> rbRoleSubjectKey (ref_Name (RoleRef rb)) (hd (Subjects rb)) = key
        then Some rb else found)"

text \<open>
  The test of the candidate loops, and the steps of the two functions after the
  membership role with the loops replaced by what they compute: \<open>f\<close> is what
  reconcile-for-delete does to the bindings of the client, \<open>new\<close> the binding the
  function creates. The loops read the owner index in the order of the call; what
  they compute does not depend on it.
\<close>

definition matches :: "string \<times> Subject \<Rightarrow> RoleBinding \<Rightarrow> bool" where
  "matches key rb =
     (length (Subjects rb) \<noteq> 1 \<and> rbRoleSubjectKey (ref_Name (RoleRef rb)) (hd (Subjects rb)) = key)"

definition ensureRest :: "indexOrder \<Rightarrow> constants \<Rightarrow> (store \<Rightarrow> string) \<Rightarrow> bindingClient \<Rightarrow> RoleBinding
    \<Rightarrow> string \<times> Subject \<Rightarrow> string \<Rightarrow> store \<Rightarrow> error option \<times> store" where
  "ensureRest order c gen client new key rtbUID s2 =
     (case ByIndex order rbByRoleAndSubject key (bindingsOf client s2) of
        [] \<Rightarrow> createBinding gen client new s2
      | rb0 # objs \<Rightarrow>
          if rtbUID \<in> fst ` set (rb_Labels rb0) then (None, s2)
          else updateBinding client (rb_Name rb0)
                 (rb0\<lparr>rb_Labels := AList.update rtbUID (membershipBindingOwner c) (rb_Labels rb0)\<rparr>)
                 s2)"

definition ensureSteps :: "indexOrder \<Rightarrow> constants \<Rightarrow> (store \<Rightarrow> string) \<Rightarrow> bindingClient
    \<Rightarrow> (RoleBinding list \<Rightarrow> RoleBinding list) \<Rightarrow> RoleBinding \<Rightarrow> string \<Rightarrow> string \<Rightarrow> Subject
    \<Rightarrow> store \<Rightarrow> error option \<times> store" where
  "ensureSteps order c gen client f new roleName rtbUID subject s1 =
     (let key = rbRoleSubjectKey roleName subject;
          T = filter (tagged c (bindingNamespace client) rtbUID) (bindingsOf client s1) in
      if \<exists>rb \<in> set T. Subjects rb = [] then (Some PanicIndexOutOfRange, s1)
      else
        let s2 = setBindings client (f (bindingsOf client s1)) s1 in
        if \<exists>rb \<in> set T. matches key rb then (None, s2)
        else ensureRest order c gen client new key rtbUID s2)"

text \<open>
  A store with a role binding of another role tagged with the binding UID, and a
  cluster role binding of the role and subject that is not tagged.
\<close>

definition staleStore :: store where
  "staleStore = emptyStore\<lparr>st_RoleBindings := [oldBinding ''c-1'' ''p-1-projectowner'' [memberSubject]],
     st_ClusterRoleBindings := [oldBinding [] ''c-1-clustermember'' [memberSubject]\<lparr>rb_Labels := []\<rparr>]\<rparr>"

text \<open>
  A store with two cluster role bindings of the same role and subject, neither tagged.
\<close>

definition twinStore :: store where
  "twinStore = emptyStore\<lparr>st_ClusterRoleBindings :=
     [oldBinding [] ''c-1-clustermember'' [memberSubject]\<lparr>rb_Name := ''binding-a'', rb_Labels := []\<rparr>,
      oldBinding [] ''c-1-clustermember'' [memberSubject]\<lparr>rb_Name := ''binding-b'', rb_Labels := []\<rparr>]\<rparr>"

section \<open>Part II: the theorems\<close>

lemma setTrue_set: "set (setTrue verbs v) = insert v (set verbs)"
  by (auto simp: setTrue_def)

subsection \<open>checkForManagementPlaneRules\<close>

lemma addVerbs_set: "set (addVerbs verbs vs) = set verbs \<union> set vs"
  by (induction vs arbitrary: verbs) (auto simp: setTrue_set)

lemma setTrue_distinct: "distinct verbs \<Longrightarrow> distinct (setTrue verbs v)"
  by (simp add: setTrue_def)

lemma addVerbs_distinct: "distinct verbs \<Longrightarrow> distinct (addVerbs verbs vs)"
  by (induction vs arbitrary: verbs) (simp_all add: setTrue_distinct)

lemma checkGroup_loop_iff:
  "checkGroup_loop apiGroup rgs = (apiGroup \<in> set rgs \<or> ''*'' \<in> set rgs)"
  by (induction rgs) auto

lemma collectVerbs_set:
  "set (collectVerbs res grp verbs rules) =
     set verbs \<union> (\<Union>rule \<in> {rule \<in> set rules. ruleMatches res grp rule}. set (Verbs rule))"
proof (induction rules arbitrary: verbs)
  case Nil
  show ?case by simp
next
  case (Cons rule rules)
  show ?case
  proof (cases "ruleMatches res grp rule")
    case True
    then have "collectVerbs res grp verbs (rule # rules)
        = collectVerbs res grp (addVerbs verbs (Verbs rule)) rules"
      by (simp add: ruleMatches_def ContainsString_def checkGroup_def checkGroup_loop_iff)
    with True show ?thesis
      by (auto simp: Cons.IH addVerbs_set)
  next
    case False
    then have "collectVerbs res grp verbs (rule # rules) = collectVerbs res grp verbs rules"
      by (auto simp: ruleMatches_def ContainsString_def checkGroup_def checkGroup_loop_iff)
    with False show ?thesis
      by (auto simp: Cons.IH)
  qed
qed

lemma collectVerbs_distinct: "distinct verbs \<Longrightarrow> distinct (collectVerbs res grp verbs rules)"
  by (induction rules arbitrary: verbs) (simp_all add: addVerbs_distinct)

text \<open>
  C4. When the lookup of an external template's native cluster role fails with an
  error other than NotFound, checkForManagementPlaneRules returns that error. In every
  other case it returns a verb map whose keys are exactly the union of the verbs of
  the rules consulted (the template's, or the same-named native cluster role's for an
  external template) that list the resource or "*", have no resource names, and list
  the API group or "*". A template that is not external and has the single rule
  {resources: [clusters], verbs: [get], apiGroups: [management.cattle.io]} yields
  {get} for (clusters, management.cattle.io) and the empty map for the group other.io.
\<close>

theorem checkForManagementPlaneRules_union:
  "(\<forall>err. External role \<and> crGet (rt_Name role) = Inl err \<and> \<not> IsNotFound err
      \<longrightarrow> checkForManagementPlaneRules crGet role res grp = Inl err)
   \<and> (\<not> (External role \<and> (\<exists>err. crGet (rt_Name role) = Inl err \<and> \<not> IsNotFound err))
      \<longrightarrow> (\<exists>verbs. checkForManagementPlaneRules crGet role res grp = Inr verbs
            \<and> distinct verbs
            \<and> set verbs = (\<Union>rule \<in> {rule \<in> set (rulesConsulted crGet role).
                               ruleMatches res grp rule}. set (Verbs rule))))
   \<and> (\<not> External role \<and> rt_Rules role = [viewerRule]
      \<longrightarrow> checkForManagementPlaneRules crGet role ''clusters'' ''management.cattle.io''
            = Inr [''get'']
          \<and> checkForManagementPlaneRules crGet role ''clusters'' ''other.io'' = Inr [])"
proof (intro conjI allI impI)
  fix err
  assume "External role \<and> crGet (rt_Name role) = Inl err \<and> \<not> IsNotFound err"
  then show "checkForManagementPlaneRules crGet role res grp = Inl err"
    by (simp add: checkForManagementPlaneRules_def)
next
  assume ok: "\<not> (External role \<and> (\<exists>err. crGet (rt_Name role) = Inl err \<and> \<not> IsNotFound err))"
  have eq: "checkForManagementPlaneRules crGet role res grp
      = Inr (collectVerbs res grp [] (rulesConsulted crGet role))"
    using ok
    by (auto simp: checkForManagementPlaneRules_def rulesConsulted_def split: sum.splits)
  show "\<exists>verbs. checkForManagementPlaneRules crGet role res grp = Inr verbs
      \<and> distinct verbs
      \<and> set verbs = (\<Union>rule \<in> {rule \<in> set (rulesConsulted crGet role).
                         ruleMatches res grp rule}. set (Verbs rule))"
    unfolding eq by (simp add: collectVerbs_set collectVerbs_distinct)
next
  assume "\<not> External role \<and> rt_Rules role = [viewerRule]"
  then show "checkForManagementPlaneRules crGet role ''clusters'' ''management.cattle.io''
      = Inr [''get'']"
    by (simp add: checkForManagementPlaneRules_def viewerRule_def ContainsString_def
        checkGroup_def setTrue_def)
next
  assume "\<not> External role \<and> rt_Rules role = [viewerRule]"
  then show "checkForManagementPlaneRules crGet role ''clusters'' ''other.io'' = Inr []"
    by (simp add: checkForManagementPlaneRules_def viewerRule_def ContainsString_def
        checkGroup_def)
qed

theorem checkForManagementPlaneRules_union_witness:
  "checkForManagementPlaneRules (\<lambda>name. Inl NotFound) viewer ''clusters'' ''management.cattle.io''
     = Inr [''get'']
   \<and> checkForManagementPlaneRules (\<lambda>name. Inl NotFound) viewer ''clusters'' ''other.io'' = Inr []
   \<and> (\<exists>verbs. checkForManagementPlaneRules (\<lambda>name. Inl NotFound) viewer ''clusters'' ''management.cattle.io'' = Inr verbs
        \<and> distinct verbs \<and> set verbs = {''get''})"
proof -
  have pre: "\<not> External viewer \<and> rt_Rules viewer = [viewerRule]"
    by (simp add: viewer_def)
  have ok: "\<not> (External viewer
      \<and> (\<exists>err. (\<lambda>name. Inl NotFound) (rt_Name viewer) = Inl err \<and> \<not> IsNotFound err))"
    by (simp add: viewer_def)
  have u: "(\<Union>rule \<in> {rule \<in> set (rulesConsulted (\<lambda>name. Inl NotFound) viewer).
              ruleMatches ''clusters'' ''management.cattle.io'' rule}. set (Verbs rule)) = {''get''}"
    by (auto simp: rulesConsulted_def viewer_def viewerRule_def ruleMatches_def)
  note inst = checkForManagementPlaneRules_union
    [of viewer "\<lambda>name. Inl NotFound" "''clusters''" "''management.cattle.io''"]
  from inst pre have a: "checkForManagementPlaneRules (\<lambda>name. Inl NotFound) viewer ''clusters''
      ''management.cattle.io'' = Inr [''get'']
    \<and> checkForManagementPlaneRules (\<lambda>name. Inl NotFound) viewer ''clusters'' ''other.io'' = Inr []"
    by blast
  from inst ok have "\<exists>verbs. checkForManagementPlaneRules (\<lambda>name. Inl NotFound) viewer
      ''clusters'' ''management.cattle.io'' = Inr verbs \<and> distinct verbs
      \<and> set verbs = (\<Union>rule \<in> {rule \<in> set (rulesConsulted (\<lambda>name. Inl NotFound) viewer).
              ruleMatches ''clusters'' ''management.cattle.io'' rule}. set (Verbs rule))"
    by blast
  then have b: "\<exists>verbs. checkForManagementPlaneRules (\<lambda>name. Inl NotFound) viewer
      ''clusters'' ''management.cattle.io'' = Inr verbs \<and> distinct verbs \<and> set verbs = {''get''}"
    unfolding u .
  from a b show ?thesis by blast
qed

subsection \<open>The role template graph walk\<close>

lemma loop_Nil: "gatherRoleTemplates_loop rtGet [] acc = Some (Inr acc)"
  by (subst gatherRoleTemplates_loop.simps) simp

lemma loop_Cons_err: "rtGet n = Inl e \<Longrightarrow>
  gatherRoleTemplates_loop rtGet (n # ns) acc = Some (Inl (Wrapf (''couldn't get RoleTemplate '' @ n) e))"
  by (subst gatherRoleTemplates_loop.simps) simp

lemma loop_Cons_ok: "rtGet n = Inr sub \<Longrightarrow>
  gatherRoleTemplates_loop rtGet (n # ns) acc =
    Option.bind (gatherRoleTemplates rtGet sub acc)
      (\<lambda>r. case r of Inl err \<Rightarrow> Some (Inl (Wrapf (''couldn't gather RoleTemplate '' @ n) err))
         | Inr acc' \<Rightarrow> gatherRoleTemplates_loop rtGet ns acc')"
  by (subst gatherRoleTemplates_loop.simps) (simp add: gatherRoleTemplates_def)

lemma reach_trans: "u \<in> reach rtGet s \<Longrightarrow> s \<in> reach rtGet t \<Longrightarrow> u \<in> reach rtGet t"
  by (induction rule: reach.induct) (auto intro: reach.intros)

lemma reach_unfold: "reach rtGet t = insert t (reachNames rtGet (RoleTemplateNames t))"
proof (intro set_eqI iffI)
  fix u assume "u \<in> reach rtGet t"
  then show "u \<in> insert t (reachNames rtGet (RoleTemplateNames t))"
  proof (induction rule: reach.induct)
    case reach_root
    show ?case by simp
  next
    case (reach_step rt rtName subRT)
    from reach_step.IH show ?case
    proof
      assume "rt = t"
      with reach_step.hyps show ?thesis
        by (auto simp: reachNames_def intro: reach.reach_root)
    next
      assume "rt \<in> reachNames rtGet (RoleTemplateNames t)"
      then obtain n s where "n \<in> set (RoleTemplateNames t)" "rtGet n = Inr s" "rt \<in> reach rtGet s"
        by (auto simp: reachNames_def)
      with reach_step.hyps show ?thesis
        by (auto simp: reachNames_def intro: reach.reach_step)
    qed
  qed
next
  fix u assume "u \<in> insert t (reachNames rtGet (RoleTemplateNames t))"
  then show "u \<in> reach rtGet t"
  proof
    assume "u = t" then show ?thesis by (simp add: reach.reach_root)
  next
    assume "u \<in> reachNames rtGet (RoleTemplateNames t)"
    then obtain n s where n: "n \<in> set (RoleTemplateNames t)" "rtGet n = Inr s" "u \<in> reach rtGet s"
      by (auto simp: reachNames_def)
    have "s \<in> reach rtGet t"
      using n by (auto intro: reach.intros)
    with n show ?thesis by (blast intro: reach_trans)
  qed
qed

lemma namedBelow_unfold: "namedBelow rtGet t = namedNames rtGet (RoleTemplateNames t)"
  unfolding namedBelow_def namedNames_def
  by (subst reach_unfold) (auto simp: reachNames_def namedBelow_def)

lemma reachNames_Cons_ok: "rtGet n = Inr sub \<Longrightarrow>
   reachNames rtGet (n # ns) = reach rtGet sub \<union> reachNames rtGet ns"
  by (auto simp: reachNames_def)

lemma reachNames_Cons_err: "rtGet n = Inl e \<Longrightarrow> reachNames rtGet (n # ns) = reachNames rtGet ns"
  by (auto simp: reachNames_def)

lemma namedNames_Cons_ok: "rtGet n = Inr sub \<Longrightarrow>
   namedNames rtGet (n # ns) = insert n (namedBelow rtGet sub \<union> namedNames rtGet ns)"
  by (auto simp: namedNames_def)

lemma override_on_twice: "override_on (override_on m g A) g B = override_on m g (A \<union> B)"
  by (auto simp: override_on_def fun_eq_iff)

lemma loop_walk:
  assumes IH: "\<And>n sub acc. n \<in> set names \<Longrightarrow> rtGet n = Inr sub \<Longrightarrow>
     \<exists>r. gatherRoleTemplates rtGet sub acc = Some r
        \<and> walkResult rtGet (reach rtGet sub) (namedBelow rtGet sub) acc r"
  shows "\<exists>r. gatherRoleTemplates_loop rtGet names acc = Some r
        \<and> walkResult rtGet (reachNames rtGet names) (namedNames rtGet names) acc r"
  using IH
proof (induction names arbitrary: acc)
  case Nil
  show ?case
    by (simp add: loop_Nil walkResult_def reachNames_def namedNames_def)
next
  case (Cons n ns)
  show ?case
  proof (cases "rtGet n")
    case (Inl e)
    then show ?thesis
      by (auto simp: loop_Cons_err walkResult_def namedNames_def)
  next
    case (Inr sub)
    from Cons.prems[of n sub acc] Inr obtain r1 where
      r1: "gatherRoleTemplates rtGet sub acc = Some r1"
      and w1: "walkResult rtGet (reach rtGet sub) (namedBelow rtGet sub) acc r1"
      by auto
    show ?thesis
    proof (cases r1)
      case (Inl e)
      with r1 w1 Inr show ?thesis
        by (auto simp: loop_Cons_ok walkResult_def namedNames_Cons_ok)
    next
      case r1': (Inr acc1)
      have "\<exists>r. gatherRoleTemplates_loop rtGet ns acc1 = Some r
        \<and> walkResult rtGet (reachNames rtGet ns) (namedNames rtGet ns) acc1 r"
        by (rule Cons.IH) (use Cons.prems in auto)
      then obtain r2 where r2: "gatherRoleTemplates_loop rtGet ns acc1 = Some r2"
        and w2: "walkResult rtGet (reachNames rtGet ns) (namedNames rtGet ns) acc1 r2"
        by auto
      have eq: "gatherRoleTemplates_loop rtGet (n # ns) acc = Some r2"
        using Inr r1 r1' r2 by (simp add: loop_Cons_ok)
      show ?thesis
      proof (cases r2)
        case (Inl e)
        with w2 have "walkResult rtGet (reachNames rtGet (n # ns)) (namedNames rtGet (n # ns)) acc r2"
          using Inr by (auto simp: walkResult_def namedNames_Cons_ok)
        with eq show ?thesis by blast
      next
        case r2': (Inr acc2)
        have "walkResult rtGet (reachNames rtGet (n # ns)) (namedNames rtGet (n # ns)) acc r2"
          using w1 w2 Inr r1' r2'
          by (auto simp: walkResult_def namedNames_Cons_ok reachNames_Cons_ok override_on_twice image_Un)
        with eq show ?thesis by blast
      qed
    qed
  qed
qed

lemma reach_fetched:
  assumes "consistentLister rtGet" "rtGet root = Inr rt0" "rt \<in> reach rtGet rt0"
  shows "rtGet (rt_Name rt) = Inr rt"
  using assms(3)
proof (induction rule: reach.induct)
  case reach_root
  from assms(1,2) show ?case by (auto simp: consistentLister_def)
next
  case (reach_step rt rtName subRT)
  with assms(1) show ?case by (auto simp: consistentLister_def)
qed

lemma gather_walk:
  assumes cons: "consistentLister rtGet" and root: "rtGet root = Inr rt0"
    and wf: "wf (inheritsBelow rtGet rt0)"
  shows "rt \<in> reach rtGet rt0 \<Longrightarrow>
     \<exists>r. gatherRoleTemplates rtGet rt acc = Some r
        \<and> walkResult rtGet (reach rtGet rt) (namedBelow rtGet rt) acc r"
  using wf
proof (induction rt arbitrary: acc rule: wf_induct_rule)
  case (less rt)
  have child: "\<exists>r. gatherRoleTemplates rtGet sub a = Some r
        \<and> walkResult rtGet (reach rtGet sub) (namedBelow rtGet sub) a r"
    if "n \<in> set (RoleTemplateNames rt)" "rtGet n = Inr sub" for n sub a
  proof (rule less.IH)
    show "(sub, rt) \<in> inheritsBelow rtGet rt0"
      using that less.prems by (auto simp: inheritsBelow_def)
    show "sub \<in> reach rtGet rt0"
      using that less.prems by (auto intro: reach.reach_step)
  qed
  let ?acc0 = "AList.update (rt_Name rt) rt acc"
  from loop_walk[of "RoleTemplateNames rt" rtGet ?acc0] child
  obtain r where r: "gatherRoleTemplates_loop rtGet (RoleTemplateNames rt) ?acc0 = Some r"
    and w: "walkResult rtGet (reachNames rtGet (RoleTemplateNames rt))
              (namedNames rtGet (RoleTemplateNames rt)) ?acc0 r"
    by blast
  have f: "lookupT rtGet (rt_Name rt) = Some rt"
    using reach_fetched[OF cons root less.prems] by (simp add: lookupT_def)
  have m: "override_on (map_of ?acc0) (lookupT rtGet) A
      = override_on (map_of acc) (lookupT rtGet) (insert (rt_Name rt) A)" for A
    using f by (auto simp: override_on_def fun_eq_iff update_conv')
  have "walkResult rtGet (reach rtGet rt) (namedBelow rtGet rt) acc r"
    using w unfolding walkResult_def namedBelow_unfold reach_unfold[of rtGet rt]
    by (auto split: sum.splits simp: m distinct_update)
  with r show ?case by (auto simp: gatherRoleTemplates_def)
qed

lemma dedupe_map:
  "distinct (map fst allRoles) \<Longrightarrow> \<forall>(k, role) \<in> set allRoles. rt_Name role = k \<Longrightarrow>
     map_of (dedupe allRoles roles) = map_of roles ++ map_of allRoles"
proof (induction allRoles arbitrary: roles)
  case Nil
  show ?case by simp
next
  case (Cons p allRoles)
  obtain k role where p: "p = (k, role)" by (cases p)
  with Cons.prems have k: "rt_Name role = k" "k \<notin> fst ` set allRoles" by auto
  then have nd: "k \<notin> dom (map_of allRoles)"
    by (simp add: dom_map_of_conv_image_fst)
  have "map_of (dedupe (p # allRoles) roles)
      = map_of (dedupe allRoles (AList.update k role roles))"
    using p k by simp
  also have "\<dots> = map_of (AList.update k role roles) ++ map_of allRoles"
    using Cons.prems by (intro Cons.IH) auto
  also have "\<dots> = (map_of roles)(k \<mapsto> role) ++ map_of allRoles"
    by (simp only: update_conv')
  also have "\<dots> = (map_of roles ++ map_of allRoles)(k \<mapsto> role)"
    using nd by (rule map_add_upd_left)
  also have "\<dots> = map_of roles ++ (map_of allRoles)(k \<mapsto> role)"
    by (simp only: map_add_upd)
  also have "(map_of allRoles)(k \<mapsto> role) = map_of (p # allRoles)"
    using p by simp
  finally show ?case .
qed

lemma dedupe_distinct:
  "distinct (map fst roles) \<Longrightarrow> distinct (map fst (dedupe allRoles roles))"
  by (induction allRoles roles rule: dedupe.induct) (simp_all add: distinct_update)

text \<open>
  C7 (amended). A root name that cannot be fetched returns the lister's error. For a
  root that can be fetched, a lister that returns under each name a template of that
  name, and an inheritance relation below the root that is well-founded (no cycle):
  if every name in the inheritance lists of the templates reachable from the root can
  be fetched, gatherAndDedupeRoles returns the map that holds exactly the reachable
  templates, the root included, each once under its name; if some such name cannot be
  fetched, it returns an error, and no map, whose cause is the lister's error for a
  name that cannot be fetched.
\<close>

theorem gatherAndDedupeRoles_walk:
  "(\<forall>err. rtGet root = Inl err \<longrightarrow> gatherAndDedupeRoles rtGet root = Some (Inl err))
   \<and> (consistentLister rtGet \<and> rtGet root = Inr rt0 \<and> wf (inheritsBelow rtGet rt0) \<longrightarrow>
        ((\<forall>n \<in> namedBelow rtGet rt0. \<exists>rt. rtGet n = Inr rt) \<longrightarrow>
           (\<exists>roles. gatherAndDedupeRoles rtGet root = Some (Inr roles)
              \<and> distinct (map fst roles)
              \<and> set roles = {(rt_Name rt, rt) | rt. rt \<in> reach rtGet rt0}))
        \<and> ((\<exists>n \<in> namedBelow rtGet rt0. \<exists>err. rtGet n = Inl err) \<longrightarrow>
           (\<exists>err n err0. gatherAndDedupeRoles rtGet root = Some (Inl err)
              \<and> n \<in> namedBelow rtGet rt0 \<and> rtGet n = Inl err0 \<and> Cause err = Cause err0)))"
proof (intro conjI allI impI)
  fix err assume "rtGet root = Inl err"
  then show "gatherAndDedupeRoles rtGet root = Some (Inl err)"
    by (simp add: gatherAndDedupeRoles_def)
next
  assume h: "consistentLister rtGet \<and> rtGet root = Inr rt0 \<and> wf (inheritsBelow rtGet rt0)"
  assume all: "\<forall>n \<in> namedBelow rtGet rt0. \<exists>rt. rtGet n = Inr rt"
  from h gather_walk[of rtGet root rt0 rt0 "[]"] obtain r where
    r: "gatherRoleTemplates rtGet rt0 [] = Some r"
    and w: "walkResult rtGet (reach rtGet rt0) (namedBelow rtGet rt0) [] r"
    by (auto intro: reach.reach_root)
  from w all obtain allRoles where r': "r = Inr allRoles"
    by (cases r) (auto simp: walkResult_def)
  from w r' have m: "map_of allRoles = override_on Map.empty (lookupT rtGet) (rt_Name ` reach rtGet rt0)"
    and d: "distinct (map fst allRoles)"
    by (auto simp: walkResult_def)
  have fetched: "rtGet (rt_Name rt) = Inr rt" if "rt \<in> reach rtGet rt0" for rt
    using reach_fetched[of rtGet root rt0 rt] h that by blast
  have mem: "(k, v) \<in> set allRoles \<longleftrightarrow> v \<in> reach rtGet rt0 \<and> rt_Name v = k" for k v
  proof -
    have "(k, v) \<in> set allRoles \<longleftrightarrow> map_of allRoles k = Some v"
      using d by simp
    also have "\<dots> \<longleftrightarrow> v \<in> reach rtGet rt0 \<and> rt_Name v = k"
    proof
      assume a: "map_of allRoles k = Some v"
      then obtain rt where rt: "rt \<in> reach rtGet rt0" "k = rt_Name rt"
        unfolding m by (auto simp: override_on_def split: if_splits)
      with a fetched[of rt] have "v = rt"
        unfolding m by (simp add: override_on_def lookupT_def)
      with rt show "v \<in> reach rtGet rt0 \<and> rt_Name v = k" by simp
    next
      assume "v \<in> reach rtGet rt0 \<and> rt_Name v = k"
      with fetched[of v] show "map_of allRoles k = Some v"
        unfolding m by (auto simp: override_on_def lookupT_def)
    qed
    finally show ?thesis .
  qed
  then have keys: "\<forall>(k, role) \<in> set allRoles. rt_Name role = k" by auto
  let ?roles = "dedupe allRoles []"
  have dm: "map_of ?roles = map_of allRoles"
    using dedupe_map[OF d keys, of "[]"] by simp
  have dd: "distinct (map fst ?roles)"
    by (rule dedupe_distinct) simp
  have "set ?roles = {(rt_Name rt, rt) | rt. rt \<in> reach rtGet rt0}"
  proof (intro set_eqI)
    fix p :: "string \<times> RoleTemplate"
    obtain k v where p: "p = (k, v)" by (cases p)
    have "(k, v) \<in> set ?roles \<longleftrightarrow> map_of ?roles k = Some v"
      using dd by simp
    also have "\<dots> \<longleftrightarrow> (k, v) \<in> set allRoles"
      unfolding dm using d by simp
    finally show "p \<in> set ?roles \<longleftrightarrow> p \<in> {(rt_Name rt, rt) | rt. rt \<in> reach rtGet rt0}"
      using mem p by auto
  qed
  with dd r r' h show "\<exists>roles. gatherAndDedupeRoles rtGet root = Some (Inr roles)
              \<and> distinct (map fst roles)
              \<and> set roles = {(rt_Name rt, rt) | rt. rt \<in> reach rtGet rt0}"
    by (auto simp: gatherAndDedupeRoles_def)
next
  assume h: "consistentLister rtGet \<and> rtGet root = Inr rt0 \<and> wf (inheritsBelow rtGet rt0)"
  assume ex: "\<exists>n \<in> namedBelow rtGet rt0. \<exists>err. rtGet n = Inl err"
  from h gather_walk[of rtGet root rt0 rt0 "[]"] obtain r where
    r: "gatherRoleTemplates rtGet rt0 [] = Some r"
    and w: "walkResult rtGet (reach rtGet rt0) (namedBelow rtGet rt0) [] r"
    by (auto intro: reach.reach_root)
  from w ex obtain err where r': "r = Inl err"
    by (cases r) (auto simp: walkResult_def)
  with w obtain n err0 where "n \<in> namedBelow rtGet rt0" "rtGet n = Inl err0" "Cause err = Cause err0"
    by (auto simp: walkResult_def)
  with r r' h show "\<exists>err n err0. gatherAndDedupeRoles rtGet root = Some (Inl err)
              \<and> n \<in> namedBelow rtGet rt0 \<and> rtGet n = Inl err0 \<and> Cause err = Cause err0"
    by (auto simp: gatherAndDedupeRoles_def)
qed

lemma loop_cyclic_None: "gatherRoleTemplates_loop cyclicLister (''a'' # rest) acc = None"
proof -
  have inv: "(case names of [] \<Rightarrow> True | n # ns \<Rightarrow> rtGet = cyclicLister \<longrightarrow> n \<noteq> ''a'')"
    if "gatherRoleTemplates_loop rtGet names acc = Some y" for rtGet names acc y
  proof (rule gatherRoleTemplates_loop.raw_induct
      [where P = "\<lambda>g names acc y. case names of [] \<Rightarrow> True | n # ns \<Rightarrow> g = cyclicLister \<longrightarrow> n \<noteq> ''a''",
        OF _ that], goal_cases)
    case (1 f g names acc y)
    show ?case
    proof (cases names)
      case Nil
      then show ?thesis by simp
    next
      case (Cons n ns)
      show ?thesis
      proof (cases "g = cyclicLister \<and> n = ''a''")
        case False
        with Cons show ?thesis by auto
      next
        case True
        with Cons "1"(2) obtain r1 acc1 where "f cyclicLister [''a''] acc1 = Some r1"
          by (auto simp: cyclicLister_def selfInheriting_def split: Option.bind_splits)
        from "1"(1)[OF this] show ?thesis by simp
      qed
    qed
  qed
  from inv[of cyclicLister "''a'' # rest" acc] show ?thesis
    by (cases "gatherRoleTemplates_loop cyclicLister (''a'' # rest) acc") auto
qed

text \<open>
  C7 as stated fails on a cycle: the template a lists itself, every name in an
  inheritance list can be fetched, and the walk does not return.
\<close>

theorem gatherAndDedupeRoles_cycle_counterexample:
  "cyclicLister ''a'' = Inr selfInheriting
   \<and> RoleTemplateNames selfInheriting = [''a'']
   \<and> gatherAndDedupeRoles cyclicLister ''a'' = None"
proof -
  have a: "cyclicLister ''a'' = Inr selfInheriting"
    by (simp add: cyclicLister_def)
  have b: "RoleTemplateNames selfInheriting = [''a'']"
    by (simp add: selfInheriting_def)
  have "gatherRoleTemplates cyclicLister selfInheriting [] = None"
    unfolding gatherRoleTemplates_def b by (rule loop_cyclic_None)
  then have "gatherAndDedupeRoles cyclicLister ''a'' = None"
    by (simp add: gatherAndDedupeRoles_def a)
  with a b show ?thesis by simp
qed

lemma reach_twoTemplates: "reach twoTemplates projectMember = {projectMember, viewer}"
proof -
  have "reachNames twoTemplates (RoleTemplateNames viewer) = {}"
    by (simp add: reachNames_def viewer_def)
  then have v: "reach twoTemplates viewer = {viewer}"
    using reach_unfold[of twoTemplates viewer] by simp
  have "reachNames twoTemplates (RoleTemplateNames projectMember) = reach twoTemplates viewer"
    by (auto simp: reachNames_def twoTemplates_def projectMember_def)
  then show ?thesis
    using reach_unfold[of twoTemplates projectMember] v by simp
qed

lemma reach_dangling: "reach danglingLister dangling = {dangling}"
proof -
  have "reachNames danglingLister (RoleTemplateNames dangling) = {}"
    by (auto simp: reachNames_def danglingLister_def dangling_def)
  then show ?thesis
    using reach_unfold[of danglingLister dangling] by simp
qed

theorem gatherAndDedupeRoles_walk_witness:
  "(\<exists>roles. gatherAndDedupeRoles twoTemplates ''project-member'' = Some (Inr roles)
      \<and> distinct (map fst roles)
      \<and> set roles = {(''project-member'', projectMember), (''viewer'', viewer)})
   \<and> (\<exists>err. gatherAndDedupeRoles danglingLister ''dangling'' = Some (Inl err)
      \<and> Cause err = NotFound)
   \<and> gatherAndDedupeRoles danglingLister ''ghost'' = Some (Inl NotFound)"
proof -
  have c1: "consistentLister twoTemplates"
    by (auto simp: consistentLister_def twoTemplates_def projectMember_def viewer_def
        split: if_splits)
  have r1: "twoTemplates ''project-member'' = Inr projectMember"
    by (simp add: twoTemplates_def)
  have "inheritsBelow twoTemplates projectMember \<subseteq> {(viewer, projectMember)}"
  proof
    fix p assume "p \<in> inheritsBelow twoTemplates projectMember"
    then obtain sub rt n where p: "p = (sub, rt)" and rt: "rt \<in> {projectMember, viewer}"
      and n: "n \<in> set (RoleTemplateNames rt)" "twoTemplates n = Inr sub"
      unfolding inheritsBelow_def reach_twoTemplates by blast
    from n(1) have "RoleTemplateNames rt \<noteq> []" by auto
    with rt have "rt = projectMember" by (auto simp: viewer_def)
    moreover from this n have "sub = viewer"
      by (simp add: projectMember_def twoTemplates_def)
    ultimately show "p \<in> {(viewer, projectMember)}" using p by simp
  qed
  also have "\<dots> \<subseteq> measure (\<lambda>rt. length (RoleTemplateNames rt))"
    by (simp add: viewer_def projectMember_def)
  finally have w1: "wf (inheritsBelow twoTemplates projectMember)"
    by (rule wf_subset[OF wf_measure])
  have "namedBelow twoTemplates projectMember = {''viewer''}"
    unfolding namedBelow_def reach_twoTemplates by (auto simp: projectMember_def viewer_def)
  then have n1: "\<forall>n \<in> namedBelow twoTemplates projectMember. \<exists>rt. twoTemplates n = Inr rt"
    by (simp add: twoTemplates_def)
  have "rt_Name projectMember = ''project-member''" "rt_Name viewer = ''viewer''"
    by (simp_all add: projectMember_def viewer_def)
  then have s1: "{(rt_Name rt, rt) | rt. rt \<in> reach twoTemplates projectMember}
      = {(''project-member'', projectMember), (''viewer'', viewer)}"
    unfolding reach_twoTemplates by auto
  have a: "\<exists>roles. gatherAndDedupeRoles twoTemplates ''project-member'' = Some (Inr roles)
      \<and> distinct (map fst roles)
      \<and> set roles = {(''project-member'', projectMember), (''viewer'', viewer)}"
    using gatherAndDedupeRoles_walk[of twoTemplates "''project-member''" projectMember]
      c1 r1 w1 n1 unfolding s1 by blast
  have c2: "consistentLister danglingLister"
    by (auto simp: consistentLister_def danglingLister_def dangling_def split: if_splits)
  have r2: "danglingLister ''dangling'' = Inr dangling"
    by (simp add: danglingLister_def)
  have "inheritsBelow danglingLister dangling = {}"
    unfolding inheritsBelow_def reach_dangling
    by (auto simp: danglingLister_def dangling_def)
  then have w2: "wf (inheritsBelow danglingLister dangling)" by simp
  have "namedBelow danglingLister dangling = {''ghost''}"
    unfolding namedBelow_def reach_dangling by (auto simp: dangling_def)
  then have n2: "\<exists>n \<in> namedBelow danglingLister dangling. \<exists>err. danglingLister n = Inl err"
    by (simp add: danglingLister_def)
  from gatherAndDedupeRoles_walk[of danglingLister "''dangling''" dangling] c2 r2 w2 n2
  obtain err n err0 where e: "gatherAndDedupeRoles danglingLister ''dangling'' = Some (Inl err)"
    "danglingLister n = Inl err0" "Cause err = Cause err0"
    by blast
  from e(2) have "err0 = NotFound"
    by (auto simp: danglingLister_def split: if_splits)
  with e have b: "\<exists>err. gatherAndDedupeRoles danglingLister ''dangling'' = Some (Inl err)
      \<and> Cause err = NotFound"
    by auto
  have "danglingLister ''ghost'' = Inl NotFound"
    by (simp add: danglingLister_def)
  with gatherAndDedupeRoles_walk[of danglingLister "''ghost''" dangling]
  have c: "gatherAndDedupeRoles danglingLister ''ghost'' = Some (Inl NotFound)"
    by blast
  from a b c show ?thesis by blast
qed

subsection \<open>checkReferencedRoles\<close>

lemma ownRule_loop_iff:
  "ownRule_loop c rules = (\<exists>rule \<in> set rules.
      (projectResource c \<in> set (Resources rule) \<or> clusterResource c \<in> set (Resources rule)) \<and> ''own'' \<in> set (Verbs rule))"
  by (induction rules) (auto simp: ContainsString_def)

lemma direct_ownerGranting:
  "checkReferencedRoles_direct c (rt_Name rt) rt = ownerGranting c rt"
  by (auto simp: checkReferencedRoles_direct_def ownerGranting_def ownRule_loop_iff)

lemma check_loop_Nil: "checkReferencedRoles_loop c rtGet [] = Some (Inr False)"
  by (subst checkReferencedRoles_loop.simps) simp

lemma check_loop_Cons:
  "checkReferencedRoles_loop c rtGet (n # rest) =
     Option.bind (checkReferencedRoles c rtGet n)
       (\<lambda>r. case r of Inl err \<Rightarrow> Some (Inl err)
          | Inr isOwnerRole \<Rightarrow> if isOwnerRole then Some (Inr True)
              else checkReferencedRoles_loop c rtGet rest)"
  by (subst checkReferencedRoles_loop.simps)
    (auto simp: checkReferencedRoles_def split: sum.splits)

lemma check_loop_walk:
  assumes "\<And>n. n \<in> set names \<Longrightarrow> \<exists>sub. rtGet n = Inr sub
      \<and> checkReferencedRoles c rtGet n = Some (Inr (\<exists>rt \<in> reach rtGet sub. ownerGranting c rt))"
  shows "checkReferencedRoles_loop c rtGet names
      = Some (Inr (\<exists>rt \<in> reachNames rtGet names. ownerGranting c rt))"
  using assms
proof (induction names)
  case Nil
  show ?case by (simp add: check_loop_Nil reachNames_def)
next
  case (Cons n rest)
  from Cons.prems[of n] obtain sub where sub: "rtGet n = Inr sub"
    and c: "checkReferencedRoles c rtGet n = Some (Inr (\<exists>rt \<in> reach rtGet sub. ownerGranting c rt))"
    by auto
  have r: "checkReferencedRoles_loop c rtGet rest
      = Some (Inr (\<exists>rt \<in> reachNames rtGet rest. ownerGranting c rt))"
    by (rule Cons.IH) (use Cons.prems in auto)
  have u: "reachNames rtGet (n # rest) = reach rtGet sub \<union> reachNames rtGet rest"
    using sub by (rule reachNames_Cons_ok)
  show ?case
    by (auto simp: check_loop_Cons c r u)
qed

lemma check_walk:
  assumes cons: "consistentLister rtGet" and root: "rtGet root = Inr rt0"
    and wf: "wf (inheritsBelow rtGet rt0)"
    and all: "\<forall>n \<in> namedBelow rtGet rt0. \<exists>rt. rtGet n = Inr rt"
  shows "rt \<in> reach rtGet rt0 \<Longrightarrow>
     checkReferencedRoles c rtGet (rt_Name rt)
       = Some (Inr (\<exists>rt' \<in> reach rtGet rt. ownerGranting c rt'))"
  using wf
proof (induction rt rule: wf_induct_rule)
  case (less rt)
  have f: "rtGet (rt_Name rt) = Inr rt"
    by (rule reach_fetched[OF cons root less.prems])
  have child: "\<exists>sub. rtGet n = Inr sub
      \<and> checkReferencedRoles c rtGet n = Some (Inr (\<exists>rt \<in> reach rtGet sub. ownerGranting c rt))"
    if n: "n \<in> set (RoleTemplateNames rt)" for n
  proof -
    from n less.prems have "n \<in> namedBelow rtGet rt0"
      by (auto simp: namedBelow_def)
    with all obtain sub where sub: "rtGet n = Inr sub" by auto
    with cons have nm: "rt_Name sub = n" by (auto simp: consistentLister_def)
    have "(sub, rt) \<in> inheritsBelow rtGet rt0"
      using n sub less.prems by (auto simp: inheritsBelow_def)
    moreover have "sub \<in> reach rtGet rt0"
      using n sub less.prems by (auto intro: reach.reach_step)
    ultimately have "checkReferencedRoles c rtGet (rt_Name sub)
       = Some (Inr (\<exists>rt' \<in> reach rtGet sub. ownerGranting c rt'))"
      by (rule less.IH)
    with sub nm show ?thesis by auto
  qed
  have l: "checkReferencedRoles_loop c rtGet (RoleTemplateNames rt)
      = Some (Inr (\<exists>rt' \<in> reachNames rtGet (RoleTemplateNames rt). ownerGranting c rt'))"
    by (rule check_loop_walk) (rule child)
  show ?case
    unfolding checkReferencedRoles_def
    by (simp add: f direct_ownerGranting l reach_unfold[of rtGet rt])
qed

text \<open>
  C6 (amended). checkReferencedRoles returns the lister's error when the named template
  cannot be fetched, and true when the named template is the builtin project-owner in
  project context or the builtin cluster-owner in cluster context, whatever its rules.
  When the lister returns under each name a template of that name, the inheritance
  relation below the named template is well-founded, and every name in the inheritance
  lists below it can be fetched, it returns true if and only if some template reachable
  through inheritance lists, the named one included, is one of the two builtin owner
  templates or has a rule that lists the project or cluster resource and the verb own.
\<close>

theorem checkReferencedRoles_owner:
  "(\<forall>err. rtGet name = Inl err \<longrightarrow> checkReferencedRoles c rtGet name = Some (Inl err))
   \<and> (\<forall>rt. rtGet name = Inr rt \<and> Builtin rt
         \<and> (Context rt = ''project'' \<and> name = ''project-owner''
            \<or> Context rt = ''cluster'' \<and> name = ''cluster-owner'')
        \<longrightarrow> checkReferencedRoles c rtGet name = Some (Inr True))
   \<and> (consistentLister rtGet \<and> rtGet name = Inr rt0 \<and> wf (inheritsBelow rtGet rt0)
        \<and> (\<forall>n \<in> namedBelow rtGet rt0. \<exists>rt. rtGet n = Inr rt)
        \<longrightarrow> checkReferencedRoles c rtGet name
              = Some (Inr (\<exists>rt \<in> reach rtGet rt0. ownerGranting c rt)))"
proof (intro conjI allI impI)
  fix err assume "rtGet name = Inl err"
  then show "checkReferencedRoles c rtGet name = Some (Inl err)"
    by (simp add: checkReferencedRoles_def)
next
  fix rt
  assume "rtGet name = Inr rt \<and> Builtin rt
         \<and> (Context rt = ''project'' \<and> name = ''project-owner''
            \<or> Context rt = ''cluster'' \<and> name = ''cluster-owner'')"
  then show "checkReferencedRoles c rtGet name = Some (Inr True)"
    by (auto simp: checkReferencedRoles_def checkReferencedRoles_direct_def)
next
  assume h: "consistentLister rtGet \<and> rtGet name = Inr rt0 \<and> wf (inheritsBelow rtGet rt0)
        \<and> (\<forall>n \<in> namedBelow rtGet rt0. \<exists>rt. rtGet n = Inr rt)"
  then have "rt_Name rt0 = name" by (auto simp: consistentLister_def)
  with check_walk[of rtGet name rt0 rt0 c] h
  show "checkReferencedRoles c rtGet name
      = Some (Inr (\<exists>rt \<in> reach rtGet rt0. ownerGranting c rt))"
    by (auto intro: reach.reach_root)
qed

lemma check_loop_cyclic_None: "checkReferencedRoles_loop testConstants cyclicLister (''a'' # rest) = None"
proof -
  have nd: "\<not> checkReferencedRoles_direct testConstants ''a'' selfInheriting"
    by (simp add: checkReferencedRoles_direct_def selfInheriting_def)
  have inv: "(case names of [] \<Rightarrow> True
        | n # ns \<Rightarrow> c = testConstants \<and> rtGet = cyclicLister \<longrightarrow> n \<noteq> ''a'')"
    if "checkReferencedRoles_loop c rtGet names = Some y" for c rtGet names y
  proof (rule checkReferencedRoles_loop.raw_induct
      [where P = "\<lambda>c g names y. case names of [] \<Rightarrow> True
          | n # ns \<Rightarrow> c = testConstants \<and> g = cyclicLister \<longrightarrow> n \<noteq> ''a''",
        OF _ that], goal_cases)
    case (1 f c g names y)
    show ?case
    proof (cases names)
      case Nil
      then show ?thesis by simp
    next
      case (Cons n ns)
      show ?thesis
      proof (cases "c = testConstants \<and> g = cyclicLister \<and> n = ''a''")
        case False
        with Cons show ?thesis by auto
      next
        case True
        then have g: "g n = Inr selfInheriting" by (simp add: cyclicLister_def)
        have "RoleTemplateNames selfInheriting = [''a'']" by (simp add: selfInheriting_def)
        with Cons "1"(2) True g nd obtain r1 where "f testConstants cyclicLister [''a''] = Some r1"
          by (auto split: Option.bind_splits)
        from "1"(1)[OF this] show ?thesis by simp
      qed
    qed
  qed
  from inv[of testConstants cyclicLister "''a'' # rest"] show ?thesis
    by (cases "checkReferencedRoles_loop testConstants cyclicLister (''a'' # rest)") auto
qed

text \<open>
  C6 as stated fails: custom is not builtin and no template below it has a rule, yet
  it inherits the builtin project-owner and the answer is true; mixed inherits a
  template with an own rule after a name that cannot be fetched and the answer is the
  error; on the self-inheriting template the walk does not return.
\<close>

theorem checkReferencedRoles_counterexample:
  "checkReferencedRoles testConstants ownerTemplates ''custom'' = Some (Inr True)
   \<and> ownerTemplates ''custom'' = Inr custom \<and> \<not> Builtin custom \<and> rt_Rules custom = []
   \<and> RoleTemplateNames custom = [''project-owner'']
   \<and> ownerTemplates ''project-owner'' = Inr projectOwner \<and> rt_Rules projectOwner = []
   \<and> RoleTemplateNames projectOwner = []
   \<and> checkReferencedRoles testConstants ownerTemplates ''mixed'' = Some (Inl NotFound)
   \<and> ownerTemplates ''mixed'' = Inr mixed \<and> RoleTemplateNames mixed = [''ghost'', ''owning'']
   \<and> ownerTemplates ''owning'' = Inr owning \<and> rt_Rules owning = [ownRule]
   \<and> checkReferencedRoles testConstants cyclicLister ''a'' = None"
proof -
  have a: "checkReferencedRoles testConstants ownerTemplates ''custom'' = Some (Inr True)"
    unfolding checkReferencedRoles_def
    by (subst checkReferencedRoles_loop.simps)
      (simp add: ownerTemplates_def custom_def projectOwner_def checkReferencedRoles_direct_def)
  have b: "checkReferencedRoles testConstants ownerTemplates ''mixed'' = Some (Inl NotFound)"
    unfolding checkReferencedRoles_def
    by (subst checkReferencedRoles_loop.simps)
      (simp add: ownerTemplates_def mixed_def checkReferencedRoles_direct_def)
  have "checkReferencedRoles testConstants cyclicLister ''a''
      = checkReferencedRoles_loop testConstants cyclicLister [''a'']"
    by (simp add: checkReferencedRoles_def cyclicLister_def selfInheriting_def
        checkReferencedRoles_direct_def)
  then have c: "checkReferencedRoles testConstants cyclicLister ''a'' = None"
    by (simp add: check_loop_cyclic_None)
  show ?thesis
    using a b c
    by (simp add: ownerTemplates_def custom_def projectOwner_def mixed_def owning_def)
qed

theorem checkReferencedRoles_owner_witness:
  "checkReferencedRoles testConstants twoTemplates ''project-member'' = Some (Inr False)
   \<and> checkReferencedRoles testConstants ownerTemplates ''project-owner'' = Some (Inr True)
   \<and> checkReferencedRoles testConstants ownerTemplates ''ghost'' = Some (Inl NotFound)"
proof -
  note inst = checkReferencedRoles_owner
  have c1: "consistentLister twoTemplates"
    by (auto simp: consistentLister_def twoTemplates_def projectMember_def viewer_def
        split: if_splits)
  have r1: "twoTemplates ''project-member'' = Inr projectMember"
    by (simp add: twoTemplates_def)
  have "inheritsBelow twoTemplates projectMember \<subseteq> {(viewer, projectMember)}"
  proof
    fix p assume "p \<in> inheritsBelow twoTemplates projectMember"
    then obtain sub rt n where p: "p = (sub, rt)" and rt: "rt \<in> {projectMember, viewer}"
      and n: "n \<in> set (RoleTemplateNames rt)" "twoTemplates n = Inr sub"
      unfolding inheritsBelow_def reach_twoTemplates by blast
    from n(1) have "RoleTemplateNames rt \<noteq> []" by auto
    with rt have "rt = projectMember" by (auto simp: viewer_def)
    moreover from this n have "sub = viewer"
      by (simp add: projectMember_def twoTemplates_def)
    ultimately show "p \<in> {(viewer, projectMember)}" using p by simp
  qed
  also have "\<dots> \<subseteq> measure (\<lambda>rt. length (RoleTemplateNames rt))"
    by (simp add: viewer_def projectMember_def)
  finally have w1: "wf (inheritsBelow twoTemplates projectMember)"
    by (rule wf_subset[OF wf_measure])
  have "namedBelow twoTemplates projectMember = {''viewer''}"
    unfolding namedBelow_def reach_twoTemplates by (auto simp: projectMember_def viewer_def)
  then have n1: "\<forall>n \<in> namedBelow twoTemplates projectMember. \<exists>rt. twoTemplates n = Inr rt"
    by (simp add: twoTemplates_def)
  have no: "\<not> (\<exists>rt \<in> reach twoTemplates projectMember. ownerGranting testConstants rt)"
    unfolding reach_twoTemplates
    by (simp add: ownerGranting_def projectMember_def viewer_def viewerRule_def testConstants_def)
  from inst[of twoTemplates "''project-member''" testConstants projectMember] c1 r1 w1 n1
  have "checkReferencedRoles testConstants twoTemplates ''project-member''
      = Some (Inr (\<exists>rt \<in> reach twoTemplates projectMember. ownerGranting testConstants rt))"
    by blast
  with no have a: "checkReferencedRoles testConstants twoTemplates ''project-member''
      = Some (Inr False)"
    by simp
  have "ownerTemplates ''project-owner'' = Inr projectOwner \<and> Builtin projectOwner
      \<and> (Context projectOwner = ''project'' \<and> ''project-owner'' = ''project-owner''
         \<or> Context projectOwner = ''cluster'' \<and> ''project-owner'' = ''cluster-owner'')"
    by (simp add: ownerTemplates_def projectOwner_def)
  with inst[of ownerTemplates "''project-owner''" testConstants]
  have b: "checkReferencedRoles testConstants ownerTemplates ''project-owner'' = Some (Inr True)"
    by blast
  have "ownerTemplates ''ghost'' = Inl NotFound"
    by (simp add: ownerTemplates_def)
  with inst[of ownerTemplates "''ghost''" testConstants]
  have c: "checkReferencedRoles testConstants ownerTemplates ''ghost'' = Some (Inl NotFound)"
    by blast
  from a b c show ?thesis by blast
qed

subsection \<open>reconcileDesiredMGMTPlaneRoleBindings\<close>

lemma diffLoop_char:
  assumes "keyedByName currentRBs" "set processed \<inter> fst ` set currentRBs = {}"
  shows "diffLoop currentRBs processed desiredRBs rbsToDelete =
     (filter (\<lambda>(k, rb). k \<notin> fst ` set currentRBs) desiredRBs,
      rbsToDelete @ filter (\<lambda>k. k \<notin> set rbsToDelete \<and> map_of desiredRBs k = None) (map fst currentRBs))"
  using assms
proof (induction currentRBs arbitrary: processed desiredRBs rbsToDelete)
  case Nil
  show ?case by simp
next
  case (Cons p currentRBs)
  obtain k rb where p: "p = (k, rb)" by (cases p)
  from Cons.prems p have nm: "rb_Name rb = k" and k: "k \<notin> fst ` set currentRBs"
    and kn: "keyedByName currentRBs" and np: "k \<notin> set processed"
    by (auto simp: keyedByName_def)
  have pr: "set (setTrue processed k) \<inter> fst ` set currentRBs = {}"
    using Cons.prems(2) k p by (auto simp: setTrue_set)
  have del: "filter (\<lambda>(k', rb). k' \<notin> fst ` set currentRBs) (AList.delete k desiredRBs)
      = filter (\<lambda>(k', rb). k' \<notin> fst ` set (p # currentRBs)) desiredRBs"
    by (induction desiredRBs) (auto simp: p)
  show ?case
  proof (cases "map_of desiredRBs k")
    case (Some v)
    have m: "map_of (AList.delete k desiredRBs) k' = None \<longleftrightarrow> k' = k \<or> map_of desiredRBs k' = None" for k'
      by (simp add: delete_conv)
    have "filter (\<lambda>k'. k' \<notin> set rbsToDelete \<and> map_of (AList.delete k desiredRBs) k' = None) (map fst currentRBs)
        = filter (\<lambda>k'. k' \<notin> set rbsToDelete \<and> map_of desiredRBs k' = None) (map fst currentRBs)"
      using k by (intro filter_cong) (auto simp: m)
    with Some show ?thesis
      using Cons.IH[OF kn pr, of "AList.delete k desiredRBs" rbsToDelete] p nm np del
      by simp
  next
    case None
    have f: "filter (\<lambda>(k', rb). k' \<notin> fst ` set currentRBs) desiredRBs
        = filter (\<lambda>(k', rb). k' \<notin> fst ` set (p # currentRBs)) desiredRBs"
      using None by (intro filter_cong) (force simp: p map_of_eq_None_iff)+
    have "k \<notin> set rbsToDelete \<Longrightarrow>
        filter (\<lambda>k'. k' \<notin> set (rbsToDelete @ [k]) \<and> map_of desiredRBs k' = None) (map fst currentRBs)
        = filter (\<lambda>k'. k' \<notin> set rbsToDelete \<and> map_of desiredRBs k' = None) (map fst currentRBs)"
      using k by (intro filter_cong) auto
    with None show ?thesis
      using Cons.IH[OF kn pr, of desiredRBs "setTrue rbsToDelete k"] p nm np f
      by (auto simp: setTrue_def)
  qed
qed

lemma createLoop_recording:
  assumes "benign respond" "\<forall>(k, rb) \<in> set rbs. Subjects rb \<noteq> []"
  shows "createLoop (recordingRoleBindings respond) rbs writes
     = (None, writes @ map (\<lambda>(k, rb). CreateRoleBinding rb) rbs)"
  using assms(2)
proof (induction rbs arbitrary: writes)
  case Nil
  show ?case by simp
next
  case (Cons p rbs)
  obtain k rb where p: "p = (k, rb)" by (cases p)
  with Cons.prems obtain subject subjects where sb: "Subjects rb = subject # subjects"
    by (cases "Subjects rb") auto
  from assms(1) have "respond writes (CreateRoleBinding rb) = None
      \<or> respond writes (CreateRoleBinding rb) = Some AlreadyExists"
    unfolding benign_def by blast
  then show ?case
    using Cons.IH[of "writes @ [CreateRoleBinding rb]"] Cons.prems p sb
    by (auto simp: recordingRoleBindings_def)
qed

lemma deleteLoop_recording:
  assumes "benign respond"
  shows "deleteLoop (recordingRoleBindings respond) names writes
     = (None, writes @ map DeleteRoleBinding names)"
proof (induction names arbitrary: writes)
  case Nil
  show ?case by simp
next
  case (Cons name names)
  from assms have "respond writes (DeleteRoleBinding name) = None"
    unfolding benign_def by blast
  then show ?case
    using Cons.IH[of "writes @ [DeleteRoleBinding name]"]
    by (simp add: recordingRoleBindings_def)
qed

lemma reconcileDesired_writes:
  assumes cur: "keyedByName currentRBs" and ben: "benign respond"
    and subj: "\<forall>(k, rb) \<in> set desiredRBs. k \<notin> fst ` set currentRBs \<longrightarrow> Subjects rb \<noteq> []"
  shows "reconcileDesiredMGMTPlaneRoleBindings currentRBs desiredRBs
           (recordingRoleBindings respond) []
     = (None, map (\<lambda>(k, rb). CreateRoleBinding rb)
                (filter (\<lambda>(k, rb). k \<notin> fst ` set currentRBs) desiredRBs)
              @ map DeleteRoleBinding
                  (filter (\<lambda>k. map_of desiredRBs k = None) (map fst currentRBs)))"
proof -
  have d: "diffLoop currentRBs [] desiredRBs [] =
     (filter (\<lambda>(k, rb). k \<notin> fst ` set currentRBs) desiredRBs,
      filter (\<lambda>k. map_of desiredRBs k = None) (map fst currentRBs))"
    using diffLoop_char[OF cur, of "[]" desiredRBs "[]"] by simp
  have s: "\<forall>(k, rb) \<in> set (filter (\<lambda>(k, rb). k \<notin> fst ` set currentRBs) desiredRBs).
      Subjects rb \<noteq> []"
    using subj by auto
  show ?thesis
    unfolding reconcileDesiredMGMTPlaneRoleBindings_def d
    by (simp add: createLoop_recording[OF ben s] deleteLoop_recording[OF ben])
qed

text \<open>
  C5 (amended). For maps of current and desired bindings keyed by name in which every
  desired binding whose name is not in current has at least one subject, and a client
  whose creates fail at most with AlreadyExists and whose deletes succeed:
  reconcileDesiredMGMTPlaneRoleBindings returns nil; it issues each of its writes
  once; and its writes are exactly a create of every desired binding whose name is not
  in current and a delete of every name in current that is not in desired. So no write
  is issued for a name in both.
\<close>

theorem reconcileDesiredMGMTPlaneRoleBindings_diff:
  assumes "keyedByName currentRBs" and "keyedByName desiredRBs" and "benign respond"
    and "\<forall>(k, rb) \<in> set desiredRBs. k \<notin> fst ` set currentRBs \<longrightarrow> Subjects rb \<noteq> []"
  shows "\<exists>writes. reconcileDesiredMGMTPlaneRoleBindings currentRBs desiredRBs
                    (recordingRoleBindings respond) [] = (None, writes)
     \<and> distinct writes
     \<and> set writes =
         CreateRoleBinding ` {rb. \<exists>k. (k, rb) \<in> set desiredRBs \<and> k \<notin> fst ` set currentRBs}
         \<union> DeleteRoleBinding ` (fst ` set currentRBs - fst ` set desiredRBs)"
proof -
  let ?creates = "map (\<lambda>(k, rb). CreateRoleBinding rb)
                (filter (\<lambda>(k, rb). k \<notin> fst ` set currentRBs) desiredRBs)"
  let ?deletes = "map DeleteRoleBinding
                  (filter (\<lambda>k. map_of desiredRBs k = None) (map fst currentRBs))"
  have w: "reconcileDesiredMGMTPlaneRoleBindings currentRBs desiredRBs
           (recordingRoleBindings respond) [] = (None, ?creates @ ?deletes)"
    by (rule reconcileDesired_writes) (use assms in auto)
  have nm: "rb_Name rb = k" if "(k, rb) \<in> set desiredRBs" for k rb
    using assms(2) that unfolding keyedByName_def by blast
  have inj: "inj_on (\<lambda>(k, rb). CreateRoleBinding rb) (set desiredRBs)"
  proof (rule inj_onI)
    fix p q assume p: "p \<in> set desiredRBs" and q: "q \<in> set desiredRBs"
      and e: "(\<lambda>(k, rb). CreateRoleBinding rb) p = (\<lambda>(k, rb). CreateRoleBinding rb) q"
    obtain k1 rb1 k2 rb2 where pq: "p = (k1, rb1)" "q = (k2, rb2)"
      by (cases p, cases q) blast
    with e have "rb1 = rb2" by simp
    with nm[of k1 rb1] nm[of k2 rb2] p q pq show "p = q" by simp
  qed
  have "distinct (map fst desiredRBs)"
    using assms(2) by (simp add: keyedByName_def)
  then have "distinct desiredRBs"
    by (simp add: distinct_map)
  then have "distinct (filter (\<lambda>(k, rb). k \<notin> fst ` set currentRBs) desiredRBs)"
    by simp
  moreover have "inj_on (\<lambda>(k, rb). CreateRoleBinding rb)
      (set (filter (\<lambda>(k, rb). k \<notin> fst ` set currentRBs) desiredRBs))"
    by (rule inj_on_subset[OF inj]) simp
  ultimately have dc: "distinct ?creates"
    by (simp only: distinct_map) 
  have "distinct (map fst currentRBs)"
    using assms(1) by (simp add: keyedByName_def)
  then have "distinct (filter (\<lambda>k. map_of desiredRBs k = None) (map fst currentRBs))"
    by simp
  then have dd: "distinct ?deletes"
    by (simp only: distinct_map) (simp add: inj_on_def)
  have dj: "set ?creates \<inter> set ?deletes = {}" by auto
  have sc: "set ?creates
      = CreateRoleBinding ` {rb. \<exists>k. (k, rb) \<in> set desiredRBs \<and> k \<notin> fst ` set currentRBs}"
  proof (intro set_eqI iffI)
    fix w assume "w \<in> set ?creates"
    then obtain k rb where "(k, rb) \<in> set desiredRBs" "k \<notin> fst ` set currentRBs"
      "w = CreateRoleBinding rb"
      by auto
    then show "w \<in> CreateRoleBinding `
        {rb. \<exists>k. (k, rb) \<in> set desiredRBs \<and> k \<notin> fst ` set currentRBs}"
      by blast
  next
    fix w assume "w \<in> CreateRoleBinding `
        {rb. \<exists>k. (k, rb) \<in> set desiredRBs \<and> k \<notin> fst ` set currentRBs}"
    then obtain k rb where kr: "(k, rb) \<in> set desiredRBs" "k \<notin> fst ` set currentRBs"
      "w = CreateRoleBinding rb"
      by blast
    then have "(k, rb) \<in> set (filter (\<lambda>(k, rb). k \<notin> fst ` set currentRBs) desiredRBs)"
      by simp
    then have "(\<lambda>(k, rb). CreateRoleBinding rb) (k, rb) \<in> set ?creates"
      unfolding set_map by (rule imageI)
    with kr show "w \<in> set ?creates" by simp
  qed
  have "set (filter (\<lambda>k. map_of desiredRBs k = None) (map fst currentRBs))
      = fst ` set currentRBs - fst ` set desiredRBs"
    by (auto simp: map_of_eq_None_iff)
  then have sd: "set ?deletes = DeleteRoleBinding ` (fst ` set currentRBs - fst ` set desiredRBs)"
    by (simp only: set_map)
  show ?thesis
    using w dc dd dj sc sd by (intro exI[of _ "?creates @ ?deletes"]) simp
qed

text \<open>
  C5 as stated fails on a desired binding without subjects: the function panics on
  its log line and creates nothing. It also stops at the first failure of the client:
  when the create of b-viewer fails, c-viewer is not deleted.
\<close>

theorem reconcileDesiredMGMTPlaneRoleBindings_counterexample:
  "reconcileDesiredMGMTPlaneRoleBindings [] [(''b-viewer'', noSubjects)]
      (recordingRoleBindings (\<lambda>writes w. None)) []
     = (Some PanicIndexOutOfRange, [])
   \<and> reconcileDesiredMGMTPlaneRoleBindings
        [(''c-viewer'', viewerBinding ''c-viewer'')] [(''b-viewer'', viewerBinding ''b-viewer'')]
        (recordingRoleBindings (\<lambda>writes w. Some (OtherError ''refused''))) []
     = (Some (OtherError ''refused''), [CreateRoleBinding (viewerBinding ''b-viewer'')])"
  by (simp add: reconcileDesiredMGMTPlaneRoleBindings_def noSubjects_def viewerBinding_def
      recordingRoleBindings_def setTrue_def)

theorem reconcileDesiredMGMTPlaneRoleBindings_diff_witness:
  "\<exists>writes. reconcileDesiredMGMTPlaneRoleBindings
       [(''a-viewer'', viewerBinding ''a-viewer''), (''c-viewer'', viewerBinding ''c-viewer'')]
       [(''a-viewer'', viewerBinding ''a-viewer''), (''b-viewer'', viewerBinding ''b-viewer'')]
       (recordingRoleBindings (\<lambda>writes w. None)) [] = (None, writes)
     \<and> distinct writes
     \<and> set writes = {CreateRoleBinding (viewerBinding ''b-viewer''), DeleteRoleBinding ''c-viewer''}"
proof -
  let ?cur = "[(''a-viewer'', viewerBinding ''a-viewer''), (''c-viewer'', viewerBinding ''c-viewer'')]"
  let ?des = "[(''a-viewer'', viewerBinding ''a-viewer''), (''b-viewer'', viewerBinding ''b-viewer'')]"
  have k1: "keyedByName ?cur" and k2: "keyedByName ?des"
    by (simp_all add: keyedByName_def viewerBinding_def)
  have b: "benign (\<lambda>writes w. None)"
    by (simp add: benign_def)
  have s: "\<forall>(k, rb) \<in> set ?des. k \<notin> fst ` set ?cur \<longrightarrow> Subjects rb \<noteq> []"
    by (simp add: viewerBinding_def)
  have e: "CreateRoleBinding ` {rb. \<exists>k. (k, rb) \<in> set ?des \<and> k \<notin> fst ` set ?cur}
         \<union> DeleteRoleBinding ` (fst ` set ?cur - fst ` set ?des)
      = {CreateRoleBinding (viewerBinding ''b-viewer''), DeleteRoleBinding ''c-viewer''}"
    by auto
  from reconcileDesiredMGMTPlaneRoleBindings_diff[OF k1 k2 b s]
  show ?thesis unfolding e .
qed

subsection \<open>reconcileManagementPlaneRole\<close>

lemma verbsOn_Nil: "verbsOn resource [] = {}"
  by (simp add: verbsOn_def)

lemma verbsOn_Cons:
  "verbsOn resource (rule # rules) =
     (if resource \<in> set (Resources rule) then set (Verbs rule) else {}) \<union> verbsOn resource rules"
  by (auto simp: verbsOn_def)

lemma currentVerbs_loop_set:
  "set (currentVerbs_loop resource verbs rules) = set verbs \<union> verbsOn resource rules"
  by (induction rules arbitrary: verbs) (auto simp: verbsOn_def ContainsString_def addVerbs_set)

lemma replaceRules_eq:
  "replaceRules resource newVerbs rules added
     = (map (\<lambda>rule. if resource \<in> set (Resources rule) then buildRule resource newVerbs else rule) rules,
        added \<or> (\<exists>rule \<in> set rules. resource \<in> set (Resources rule)))"
  by (induction rules arbitrary: added) (simp_all add: ContainsString_def)

lemma updateLoop_Cons:
  "updateLoop roleRules ((resource, newVerbs) # rtv) newRules update =
     (if verbsOn resource roleRules \<noteq> set newVerbs
      then updateLoop roleRules rtv (stepRules resource newVerbs newRules) True
      else updateLoop roleRules rtv newRules update)"
  by (simp add: currentVerbs_loop_set replaceRules_eq stepRules_def Let_def)

lemma updateLoop_True: "snd (updateLoop roleRules rtv newRules True)"
proof (induction rtv arbitrary: newRules)
  case Nil
  show ?case by simp
next
  case (Cons p rtv)
  obtain resource newVerbs where p: "p = (resource, newVerbs)" by (cases p)
  show ?case
    unfolding p updateLoop_Cons using Cons.IH by simp
qed

lemma stepRules_verbsOn_same:
  "verbsOn resource (stepRules resource newVerbs rules) = set newVerbs"
  by (auto simp: stepRules_def verbsOn_def buildRule_def Let_def split: if_splits)

lemma stepRules_verbsOn_other:
  assumes "singleResource rules" "r \<noteq> resource"
  shows "verbsOn r (stepRules resource newVerbs rules) = verbsOn r rules"
proof -
  have "\<not> (r \<in> set (Resources rule) \<and> resource \<in> set (Resources rule))"
    if "rule \<in> set rules" for rule
  proof -
    from assms(1) that have "length (Resources rule) \<le> 1" by (simp add: singleResource_def)
    then show ?thesis using assms(2)
      by (cases "Resources rule") auto
  qed
  then show ?thesis
    using assms(2)
    by (auto simp: stepRules_def verbsOn_def buildRule_def Let_def split: if_splits)
qed

lemma stepRules_single:
  "singleResource rules \<Longrightarrow> singleResource (stepRules resource newVerbs rules)"
  by (auto simp: stepRules_def singleResource_def buildRule_def Let_def)

lemma filter_map_same:
  "(\<And>x. x \<in> set xs \<Longrightarrow> (P x \<longrightarrow> f x = x) \<and> (\<not> P x \<longrightarrow> \<not> P (f x)))
     \<Longrightarrow> filter P (map f xs) = filter P xs"
  by (induction xs) auto

lemma stepRules_other:
  assumes "resource \<in> fst ` set rtv"
  shows "otherRules rtv (stepRules resource newVerbs rules) = otherRules rtv rules"
proof -
  let ?P = "\<lambda>rule. \<forall>r \<in> fst ` set rtv. r \<notin> set (Resources rule)"
  let ?f = "\<lambda>rule. if resource \<in> set (Resources rule) then buildRule resource newVerbs else rule"
  have b: "\<not> ?P (buildRule resource newVerbs)"
    using assms by (auto simp: buildRule_def)
  have "filter ?P (map ?f rules) = filter ?P rules"
  proof (rule filter_map_same)
    fix x assume "x \<in> set rules"
    show "(?P x \<longrightarrow> ?f x = x) \<and> (\<not> ?P x \<longrightarrow> \<not> ?P (?f x))"
      using assms b by auto
  qed
  with b show ?thesis
    unfolding otherRules_def stepRules_def Let_def by auto
qed

lemma updateLoop_exact:
  assumes "distinct (map fst rtv)" "singleResource newRules"
    and "\<forall>(resource, verbs) \<in> set rtv. verbsOn resource newRules = verbsOn resource roleRules"
  shows "\<exists>newRules' update'. updateLoop roleRules rtv newRules update = (newRules', update')
     \<and> exactVerbs rtv newRules' \<and> singleResource newRules'
     \<and> (\<forall>r. r \<notin> fst ` set rtv \<longrightarrow> verbsOn r newRules' = verbsOn r newRules)
     \<and> (\<forall>all. fst ` set rtv \<subseteq> fst ` set all \<longrightarrow> otherRules all newRules' = otherRules all newRules)
     \<and> (\<not> update' \<longrightarrow> newRules' = newRules)"
  using assms
proof (induction rtv arbitrary: newRules update)
  case Nil
  then show ?case by (simp add: exactVerbs_def)
next
  case (Cons p rtv)
  obtain resource newVerbs where p: "p = (resource, newVerbs)" by (cases p)
  from Cons.prems p have fresh: "resource \<notin> fst ` set rtv" and d: "distinct (map fst rtv)"
    by auto
  show ?case
  proof (cases "verbsOn resource roleRules \<noteq> set newVerbs")
    case True
    let ?n = "stepRules resource newVerbs newRules"
    have s: "singleResource ?n" by (rule stepRules_single) (rule Cons.prems(2))
    have oth: "verbsOn r ?n = verbsOn r newRules" if "r \<noteq> resource" for r
      using Cons.prems(2) that by (rule stepRules_verbsOn_other)
    have inv: "\<forall>(r, verbs) \<in> set rtv. verbsOn r ?n = verbsOn r roleRules"
    proof (clarify)
      fix r verbs assume m: "(r, verbs) \<in> set rtv"
      with fresh have "r \<noteq> resource" by force
      with oth[of r] Cons.prems(3) m show "verbsOn r ?n = verbsOn r roleRules" by auto
    qed
    from Cons.IH[OF d s inv, of True] obtain newRules' update' where
      u: "updateLoop roleRules rtv ?n True = (newRules', update')"
      and e: "exactVerbs rtv newRules'" and s': "singleResource newRules'"
      and o: "\<forall>r. r \<notin> fst ` set rtv \<longrightarrow> verbsOn r newRules' = verbsOn r ?n"
      and k: "\<forall>all. fst ` set rtv \<subseteq> fst ` set all \<longrightarrow> otherRules all newRules' = otherRules all ?n"
      and n: "\<not> update' \<longrightarrow> newRules' = ?n"
      by blast
    have up: "update'"
      using updateLoop_True[of roleRules rtv ?n] u by simp
    have "verbsOn resource newRules' = set newVerbs"
      using o fresh by (simp add: stepRules_verbsOn_same)
    with e have e': "exactVerbs (p # rtv) newRules'"
      by (simp add: exactVerbs_def p)
    have o': "\<forall>r. r \<notin> fst ` set (p # rtv) \<longrightarrow> verbsOn r newRules' = verbsOn r newRules"
      using o oth by (simp add: p)
    have k': "\<forall>all. fst ` set (p # rtv) \<subseteq> fst ` set all
        \<longrightarrow> otherRules all newRules' = otherRules all newRules"
      using k by (auto simp: p stepRules_other)
    have eq: "updateLoop roleRules (p # rtv) newRules update = (newRules', update')"
      unfolding p updateLoop_Cons using True u by simp
    from eq e' s' o' k' up show ?thesis
      by blast
  next
    case False
    have inv: "\<forall>(r, verbs) \<in> set rtv. verbsOn r newRules = verbsOn r roleRules"
      using Cons.prems by auto
    from Cons.IH[OF d Cons.prems(2) inv, of update] obtain newRules' update' where
      u: "updateLoop roleRules rtv newRules update = (newRules', update')"
      and e: "exactVerbs rtv newRules'" and s': "singleResource newRules'"
      and o: "\<forall>r. r \<notin> fst ` set rtv \<longrightarrow> verbsOn r newRules' = verbsOn r newRules"
      and k: "\<forall>all. fst ` set rtv \<subseteq> fst ` set all \<longrightarrow> otherRules all newRules' = otherRules all newRules"
      and n: "\<not> update' \<longrightarrow> newRules' = newRules"
      by blast
    have "verbsOn resource newRules' = set newVerbs"
      using o fresh False Cons.prems(3) by (simp add: p)
    with e have e': "exactVerbs (p # rtv) newRules'"
      by (simp add: exactVerbs_def p)
    have eq: "updateLoop roleRules (p # rtv) newRules update = (newRules', update')"
      unfolding p updateLoop_Cons using False u by simp
    have o': "\<forall>r. r \<notin> fst ` set (p # rtv) \<longrightarrow> verbsOn r newRules' = verbsOn r newRules"
      using o by (simp add: p)
    have k': "\<forall>all. fst ` set (p # rtv) \<subseteq> fst ` set all
        \<longrightarrow> otherRules all newRules' = otherRules all newRules"
      using k by (simp add: p)
    from eq e' s' o' k' n show ?thesis
      by blast
  qed
qed

lemma exactVerbs_built:
  assumes "distinct (map fst rtv)"
  shows "exactVerbs rtv (map (\<lambda>(resource, newVerbs). buildRule resource newVerbs) rtv)"
proof -
  have "verbsOn r (map (\<lambda>(resource, newVerbs). buildRule resource newVerbs) rtv) = set vs"
    if "(r, vs) \<in> set rtv" for r vs
  proof -
    have "{rule \<in> set (map (\<lambda>(resource, newVerbs). buildRule resource newVerbs) rtv).
            r \<in> set (Resources rule)} = {buildRule r vs}"
    proof (intro set_eqI iffI)
      fix rule
      assume "rule \<in> {rule \<in> set (map (\<lambda>(resource, newVerbs). buildRule resource newVerbs) rtv).
            r \<in> set (Resources rule)}"
      then obtain r' vs' where m: "(r', vs') \<in> set rtv" "rule = buildRule r' vs'"
        "r \<in> set (Resources rule)"
        by auto
      then have "r' = r" by (simp add: buildRule_def)
      with m that assms have "vs' = vs"
        by (metis eq_key_imp_eq_value)
      with m \<open>r' = r\<close> show "rule \<in> {buildRule r vs}" by simp
    next
      fix rule assume "rule \<in> {buildRule r vs}"
      with that show "rule \<in> {rule \<in> set (map (\<lambda>(resource, newVerbs). buildRule resource newVerbs) rtv).
            r \<in> set (Resources rule)}"
        by (force simp: buildRule_def)
    qed
    then have "verbsOn r (map (\<lambda>(resource, newVerbs). buildRule resource newVerbs) rtv)
        = (\<Union>rule \<in> {buildRule r vs}. set (Verbs rule))"
      unfolding verbsOn_def by (rule arg_cong)
    then show ?thesis
      by (simp add: buildRule_def)
  qed
  then show ?thesis
    unfolding exactVerbs_def by blast
qed

lemma otherRules_built:
  "otherRules rtv (map (\<lambda>(resource, newVerbs). buildRule resource newVerbs) rtv) = []"
  unfolding otherRules_def by (force simp: filter_empty_conv buildRule_def)

text \<open>
  C2 (amended). For a resource-to-verbs map and an existing Role (if any) whose rules
  each list at most one resource, reconcileManagementPlaneRole issues at most one
  write. When no Role of the template's name is found it creates one, and when one is
  found it updates it or, if nothing differs, writes nothing. In each case, in the
  Role it stages (or leaves), for every resource of the map the union of the verbs of
  the rules that list the resource is exactly the map's verb set for it. A created
  Role has no other rule; an updated Role keeps the rules that list no resource of
  the map as they were.
\<close>

theorem reconcileManagementPlaneRole_exact:
  assumes "distinct (map fst resourceToVerbs)"
    and "\<forall>role. rGet namespace (rt_Name rt) = Inr role \<longrightarrow> singleResource (Rules role)"
  shows "\<exists>err writes.
      reconcileManagementPlaneRole rGet (recordingRoles respond) namespace resourceToVerbs rt []
        = (err, writes)
      \<and> ((\<exists>getErr role'. rGet namespace (rt_Name rt) = Inl getErr
             \<and> writes = [CreateRole namespace role'] \<and> role_Name role' = rt_Name rt
             \<and> exactVerbs resourceToVerbs (Rules role')
             \<and> otherRules resourceToVerbs (Rules role') = [])
          \<or> (\<exists>role newRules. rGet namespace (rt_Name rt) = Inr role
             \<and> writes = [UpdateRole namespace (role\<lparr>Rules := newRules\<rparr>)]
             \<and> exactVerbs resourceToVerbs newRules
             \<and> otherRules resourceToVerbs newRules = otherRules resourceToVerbs (Rules role))
          \<or> (\<exists>role. rGet namespace (rt_Name rt) = Inr role \<and> writes = [] \<and> err = None
             \<and> exactVerbs resourceToVerbs (Rules role)))"
proof (cases "rGet namespace (rt_Name rt)")
  case (Inl getErr)
  let ?role = "\<lparr>role_Name = rt_Name rt, role_Namespace = [], role_OwnerReferences = [],
       Rules = map (\<lambda>(resource, newVerbs). buildRule resource newVerbs) resourceToVerbs\<rparr>"
  have "\<exists>err. reconcileManagementPlaneRole rGet (recordingRoles respond) namespace
      resourceToVerbs rt [] = (err, [CreateRole namespace ?role])"
    by (auto simp: reconcileManagementPlaneRole_def Inl recordingRoles_def split: option.splits)
  with Inl exactVerbs_built[OF assms(1)] otherRules_built[of resourceToVerbs]
  show ?thesis by auto
next
  case (Inr role)
  with assms(2) have sr: "singleResource (Rules role)" by blast
  from updateLoop_exact[OF assms(1) sr, of "Rules role" False]
  obtain newRules update where
    u: "updateLoop (Rules role) resourceToVerbs (Rules role) False = (newRules, update)"
    and e: "exactVerbs resourceToVerbs newRules"
    and k: "otherRules resourceToVerbs newRules = otherRules resourceToVerbs (Rules role)"
    and n: "\<not> update \<longrightarrow> newRules = Rules role"
    by auto
  show ?thesis
  proof (cases update)
    case True
    have "\<exists>err. reconcileManagementPlaneRole rGet (recordingRoles respond) namespace
        resourceToVerbs rt [] = (err, [UpdateRole namespace (role\<lparr>Rules := newRules\<rparr>)])"
      by (simp add: reconcileManagementPlaneRole_def Inr u True recordingRoles_def)
    with Inr e k show ?thesis by blast
  next
    case False
    have "reconcileManagementPlaneRole rGet (recordingRoles respond) namespace
        resourceToVerbs rt [] = (None, [])"
      by (simp add: reconcileManagementPlaneRole_def Inr u False)
    with Inr e n False show ?thesis by auto
  qed
qed

text \<open>
  C2 as stated fails. A rule of the existing Role for a resource that the map no longer
  holds is kept: projects keeps get although the current state grants nothing on it.
  And a rule that lists two resources of the map is overwritten by the rule of one of
  them: clusters gets get and list, and projects, which was to keep get, is left with
  no verb.
\<close>

theorem reconcileManagementPlaneRole_counterexample:
  "reconcileManagementPlaneRole (\<lambda>namespace name. Inr staleRole)
       (recordingRoles (\<lambda>writes w. None)) ''p-1'' [(''clusters'', [''get''])] viewer []
     = (None, [UpdateRole ''p-1'' (staleRole\<lparr>Rules :=
          [buildRule ''projects'' [''get''], buildRule ''clusters'' [''get'']]\<rparr>)])
   \<and> verbsOn ''projects'' [buildRule ''projects'' [''get''], buildRule ''clusters'' [''get'']]
       = {''get''}
   \<and> map_of [(''clusters'', [''get''])] ''projects'' = None
   \<and> reconcileManagementPlaneRole (\<lambda>namespace name. Inr wideRole)
       (recordingRoles (\<lambda>writes w. None)) ''p-1''
       [(''projects'', [''get'']), (''clusters'', [''get'', ''list''])] viewer []
     = (None, [UpdateRole ''p-1'' (wideRole\<lparr>Rules := [buildRule ''clusters'' [''get'', ''list'']]\<rparr>)])
   \<and> verbsOn ''projects'' [buildRule ''clusters'' [''get'', ''list'']] = {}"
proof -
  have a: "reconcileManagementPlaneRole (\<lambda>namespace name. Inr staleRole)
       (recordingRoles (\<lambda>writes w. None)) ''p-1'' [(''clusters'', [''get''])] viewer []
     = (None, [UpdateRole ''p-1'' (staleRole\<lparr>Rules :=
          [buildRule ''projects'' [''get''], buildRule ''clusters'' [''get'']]\<rparr>)])"
    by (simp add: reconcileManagementPlaneRole_def staleRole_def recordingRoles_def
        ContainsString_def buildRule_def setTrue_def)
  have b: "verbsOn ''projects'' [buildRule ''projects'' [''get''], buildRule ''clusters'' [''get'']]
       = {''get''}"
    by (simp add: verbsOn_Nil verbsOn_Cons buildRule_def)
  have c: "reconcileManagementPlaneRole (\<lambda>namespace name. Inr wideRole)
       (recordingRoles (\<lambda>writes w. None)) ''p-1''
       [(''projects'', [''get'']), (''clusters'', [''get'', ''list''])] viewer []
     = (None, [UpdateRole ''p-1'' (wideRole\<lparr>Rules := [buildRule ''clusters'' [''get'', ''list'']]\<rparr>)])"
    by (simp add: reconcileManagementPlaneRole_def wideRole_def recordingRoles_def
        ContainsString_def buildRule_def setTrue_def)
  have d: "verbsOn ''projects'' [buildRule ''clusters'' [''get'', ''list'']] = {}"
    by (simp add: verbsOn_Nil verbsOn_Cons buildRule_def)
  from a b c d show ?thesis by simp
qed

theorem reconcileManagementPlaneRole_exact_witness:
  "\<exists>err newRules.
      reconcileManagementPlaneRole (\<lambda>namespace name. Inr staleRole)
        (recordingRoles (\<lambda>writes w. None)) ''p-1''
        [(''projects'', [''get'', ''list'']), (''clusters'', [''get''])] viewer []
        = (err, [UpdateRole ''p-1'' (staleRole\<lparr>Rules := newRules\<rparr>)])
      \<and> verbsOn ''projects'' newRules = {''get'', ''list''}
      \<and> verbsOn ''clusters'' newRules = {''get''}"
proof -
  let ?rtv = "[(''projects'', [''get'', ''list'']), (''clusters'', [''get''])]"
  let ?get = "\<lambda>namespace name. Inr staleRole :: error + Role"
  have d: "distinct (map fst ?rtv)" by simp
  have s: "\<forall>role. ?get ''p-1'' (rt_Name viewer) = Inr role \<longrightarrow> singleResource (Rules role)"
    by (simp add: staleRole_def singleResource_def buildRule_def)
  have "verbsOn ''projects'' (Rules staleRole) = {''get''}"
    by (simp add: staleRole_def verbsOn_Nil verbsOn_Cons buildRule_def)
  then have ne: "\<not> exactVerbs ?rtv (Rules staleRole)"
    by (auto simp: exactVerbs_def)
  from reconcileManagementPlaneRole_exact
    [where rGet = ?get and namespace = "''p-1''" and rt = viewer and resourceToVerbs = ?rtv
      and respond = "\<lambda>writes w. None", OF d s]
  obtain err writes where
    r: "reconcileManagementPlaneRole ?get (recordingRoles (\<lambda>writes w. None)) ''p-1'' ?rtv viewer []
        = (err, writes)"
    and c: "(\<exists>role newRules. ?get ''p-1'' (rt_Name viewer) = Inr role
             \<and> writes = [UpdateRole ''p-1'' (role\<lparr>Rules := newRules\<rparr>)]
             \<and> exactVerbs ?rtv newRules
             \<and> otherRules ?rtv newRules = otherRules ?rtv (Rules role))
          \<or> (\<exists>role. ?get ''p-1'' (rt_Name viewer) = Inr role \<and> writes = [] \<and> err = None
             \<and> exactVerbs ?rtv (Rules role))"
    by auto
  from c ne obtain newRules where
    "writes = [UpdateRole ''p-1'' (staleRole\<lparr>Rules := newRules\<rparr>)]" "exactVerbs ?rtv newRules"
    by auto
  then have "writes = [UpdateRole ''p-1'' (staleRole\<lparr>Rules := newRules\<rparr>)]"
    "verbsOn ''projects'' newRules = {''get'', ''list''}"
    "verbsOn ''clusters'' newRules = {''get''}"
    by (simp_all add: exactVerbs_def)
  with r show ?thesis
    by blast
qed

subsection \<open>grantManagementClusterScopedPrivilegesInProjectNamespace\<close>

lemma skipped_lookup:
  "(\<not> Administrative role \<and> lookupBool commonClusterAndProjectMgmtPlaneResources resource)
     = skipped role resource"
  by (auto simp: skipped_def lookupBool_def commonClusterAndProjectMgmtPlaneResources_def)

lemma crtbResources_loop_filter:
  "crtbResources_loop c crGet binding subject role resources rtv desired
     = crtbResources_loop c crGet binding subject role
         (filter (\<lambda>(resource, apiGroup). \<not> skipped role resource) resources) rtv desired"
proof (induction resources arbitrary: rtv desired)
  case Nil
  show ?case by simp
next
  case (Cons p resources)
  obtain resource apiGroup where p: "p = (resource, apiGroup)" by (cases p)
  show ?case
  proof (cases "skipped role resource")
    case True
    then show ?thesis
      using Cons.IH by (simp add: p skipped_lookup)
  next
    case False
    then show ?thesis
      using Cons.IH by (simp add: p skipped_lookup split: sum.splits)
  qed
qed

lemma crtbResources_loop_char:
  assumes "distinct (map fst resources)"
    and "crtbResources_loop c crGet binding subject role resources rtv desired = Inr (rtv', desired')"
  shows "map_of rtv' = map_of rtv ++ stagedVerbs crGet role resources
     \<and> desired' =
         (if \<exists>resource. stagedVerbs crGet role resources resource \<noteq> None
          then (if map_of desired (rtb_Name binding @ ''-'' @ rt_Name role) = None
                then AList.update (rtb_Name binding @ ''-'' @ rt_Name role)
                       (crtbDesiredBinding c binding subject role) desired
                else desired)
          else desired)"
  using assms
proof (induction resources arbitrary: rtv desired)
  case Nil
  then show ?case by (simp add: stagedVerbs_def fun_eq_iff map_add_def)
next
  case (Cons p resources)
  obtain resource apiGroup where p: "p = (resource, apiGroup)" by (cases p)
  let ?name = "rtb_Name binding @ ''-'' @ rt_Name role"
  let ?new = "crtbDesiredBinding c binding subject role"
  from Cons.prems p have fresh: "map_of resources resource = None" and d: "distinct (map fst resources)"
    by (auto simp: map_of_eq_None_iff)
  have other: "stagedVerbs crGet role (p # resources) r = stagedVerbs crGet role resources r"
    if "r \<noteq> resource" for r
    using that by (simp add: stagedVerbs_def p)
  have none: "stagedVerbs crGet role resources resource = None"
    using fresh by (simp add: stagedVerbs_def)
  consider (skip) "stagedVerbs crGet role (p # resources) resource = None"
    "crtbResources_loop c crGet binding subject role (p # resources) rtv desired
       = crtbResources_loop c crGet binding subject role resources rtv desired"
    | (stage) verbs where "stagedVerbs crGet role (p # resources) resource = Some verbs"
    "crtbResources_loop c crGet binding subject role (p # resources) rtv desired
       = crtbResources_loop c crGet binding subject role resources
           (AList.update resource verbs rtv)
           (if map_of desired ?name = None then AList.update ?name ?new desired else desired)"
  proof (cases "skipped role resource")
    case True
    then show ?thesis
      using skip by (simp add: p skipped_lookup stagedVerbs_def)
  next
    case False
    show ?thesis
    proof (cases "checkForManagementPlaneRules crGet role resource apiGroup")
      case (Inl err)
      with False Cons.prems(2) show ?thesis by (simp add: p skipped_lookup)
    next
      case (Inr verbs)
      show ?thesis
      proof (cases "verbs = []")
        case True
        with False Inr show ?thesis
          using skip by (simp add: p skipped_lookup stagedVerbs_def)
      next
        case ne: False
        with False Inr show ?thesis
          using stage[of verbs] by (simp add: p skipped_lookup stagedVerbs_def Let_def)
      qed
    qed
  qed
  then show ?case
  proof cases
    case skip
    from Cons.IH[OF d] skip(2) Cons.prems(2)
    have ih: "map_of rtv' = map_of rtv ++ stagedVerbs crGet role resources"
      and dh: "desired' =
         (if \<exists>resource. stagedVerbs crGet role resources resource \<noteq> None
          then (if map_of desired ?name = None then AList.update ?name ?new desired else desired)
          else desired)"
      by auto
    have eq: "stagedVerbs crGet role (p # resources) = stagedVerbs crGet role resources"
    proof (rule ext)
      fix r show "stagedVerbs crGet role (p # resources) r = stagedVerbs crGet role resources r"
        using other[of r] skip(1) none by (cases "r = resource") simp_all
    qed
    show ?thesis unfolding eq using ih dh by simp
  next
    case (stage verbs)
    let ?d1 = "if map_of desired ?name = None then AList.update ?name ?new desired else desired"
    from Cons.IH[OF d, of "AList.update resource verbs rtv" ?d1] stage(2) Cons.prems(2)
    have ih: "map_of rtv' = map_of (AList.update resource verbs rtv) ++ stagedVerbs crGet role resources"
      and dh: "desired' =
         (if \<exists>resource. stagedVerbs crGet role resources resource \<noteq> None
          then (if map_of ?d1 ?name = None then AList.update ?name ?new ?d1 else ?d1)
          else ?d1)"
      by auto
    have m: "map_of rtv' = map_of rtv ++ stagedVerbs crGet role (p # resources)"
    proof (rule ext)
      fix r show "map_of rtv' r = (map_of rtv ++ stagedVerbs crGet role (p # resources)) r"
        using other[of r] stage(1) none
        by (cases "r = resource") (auto simp: ih map_add_def update_conv' split: option.splits)
    qed
    have ex: "\<exists>r. stagedVerbs crGet role (p # resources) r \<noteq> None"
      using stage(1) by auto
    have nn: "map_of ?d1 ?name \<noteq> None"
      by (simp add: update_conv')
    have "desired' = ?d1" using dh nn by auto
    with m ex show ?thesis by simp
  qed
qed

lemma crtbRoles_loop_filter:
  assumes "\<forall>(k, role) \<in> set roles. \<not> Administrative role"
  shows "crtbRoles_loop c m projectNamespace resources subject binding roles desired s
     = crtbRoles_loop c m projectNamespace
         (filter (\<lambda>(resource, apiGroup). resource \<noteq> ''catalogtemplates''
                    \<and> resource \<noteq> ''catalogtemplateversions'') resources)
         subject binding roles desired s"
  using assms
proof (induction roles arbitrary: desired s)
  case Nil
  show ?case by simp
next
  case (Cons p roles)
  obtain k role where p: "p = (k, role)" by (cases p)
  with Cons.prems have na: "\<not> Administrative role" by auto
  let ?f = "filter (\<lambda>(resource, apiGroup). resource \<noteq> ''catalogtemplates''
                    \<and> resource \<noteq> ''catalogtemplateversions'') resources"
  have "?f = filter (\<lambda>(resource, apiGroup). \<not> skipped role resource) resources"
    using na by (simp add: skipped_def)
  then have e: "crtbResources_loop c (crLister_Get m) binding subject role resources [] desired
      = crtbResources_loop c (crLister_Get m) binding subject role ?f [] desired"
    using crtbResources_loop_filter[of c "crLister_Get m" binding subject role resources "[]" desired]
    by simp
  have ih: "crtbRoles_loop c m projectNamespace resources subject binding roles d t
      = crtbRoles_loop c m projectNamespace ?f subject binding roles d t" for d t
    by (rule Cons.IH) (use Cons.prems in auto)
  show ?case
    unfolding p crtbRoles_loop.simps e ih ..
qed

text \<open>
  C8. For a role template that is not Administrative the inner loop of
  grantManagementClusterScopedPrivilegesInProjectNamespace returns what it returns on
  the resource map without catalogtemplates and catalogtemplateversions, whatever the
  template's rules grant on them; and when no role of the expansion is
  Administrative, so does the loop over the roles, which stages the roles and the
  desired bindings. When the inner loop returns without an error on a resource map,
  the verbs it stages for the role are, on each resource, those of
  checkForManagementPlaneRules where the resource is in the map, is not skipped and
  the verbs are not empty, and none otherwise; so a template that is not
  Administrative has no verbs staged on the two resources, and an Administrative one
  has them staged as on any other resource. Where no verbs are staged the desired
  bindings stay as they were, and where some are, the binding of the role is among
  them.
\<close>

theorem crtbResources_loop_skips:
  "(\<not> Administrative role \<longrightarrow>
      crtbResources_loop c crGet binding subject role resources rtv desired
        = crtbResources_loop c crGet binding subject role
            (filter (\<lambda>(resource, apiGroup). resource \<noteq> ''catalogtemplates''
                       \<and> resource \<noteq> ''catalogtemplateversions'') resources) rtv desired)
   \<and> ((\<forall>(k, role) \<in> set roles. \<not> Administrative role) \<longrightarrow>
        crtbRoles_loop c m projectNamespace resources subject binding roles desired s
          = crtbRoles_loop c m projectNamespace
              (filter (\<lambda>(resource, apiGroup). resource \<noteq> ''catalogtemplates''
                         \<and> resource \<noteq> ''catalogtemplateversions'') resources)
              subject binding roles desired s)
   \<and> (distinct (map fst resources)
        \<and> crtbResources_loop c crGet binding subject role resources [] desired = Inr (rtv', desired')
      \<longrightarrow> map_of rtv' = stagedVerbs crGet role resources
          \<and> (\<not> Administrative role \<longrightarrow>
                map_of rtv' ''catalogtemplates'' = None
                \<and> map_of rtv' ''catalogtemplateversions'' = None)
          \<and> (Administrative role \<longrightarrow>
                (\<forall>resource apiGroup verbs. (resource, apiGroup) \<in> set resources
                    \<and> checkForManagementPlaneRules crGet role resource apiGroup = Inr verbs
                    \<and> verbs \<noteq> []
                  \<longrightarrow> map_of rtv' resource = Some verbs))
          \<and> (rtv' = [] \<longrightarrow> desired' = desired)
          \<and> (rtv' \<noteq> [] \<longrightarrow> map_of desired' (rtb_Name binding @ ''-'' @ rt_Name role) \<noteq> None))"
proof (intro conjI impI)
  assume na: "\<not> Administrative role"
  have "filter (\<lambda>(resource, apiGroup). resource \<noteq> ''catalogtemplates''
                    \<and> resource \<noteq> ''catalogtemplateversions'') resources
      = filter (\<lambda>(resource, apiGroup). \<not> skipped role resource) resources"
    using na by (simp add: skipped_def)
  then show "crtbResources_loop c crGet binding subject role resources rtv desired
        = crtbResources_loop c crGet binding subject role
            (filter (\<lambda>(resource, apiGroup). resource \<noteq> ''catalogtemplates''
                       \<and> resource \<noteq> ''catalogtemplateversions'') resources) rtv desired"
    using crtbResources_loop_filter[of c crGet binding subject role resources rtv desired]
    by simp
next
  assume "\<forall>(k, role) \<in> set roles. \<not> Administrative role"
  then show "crtbRoles_loop c m projectNamespace resources subject binding roles desired s
          = crtbRoles_loop c m projectNamespace
              (filter (\<lambda>(resource, apiGroup). resource \<noteq> ''catalogtemplates''
                         \<and> resource \<noteq> ''catalogtemplateversions'') resources)
              subject binding roles desired s"
    by (rule crtbRoles_loop_filter)
next
  assume h: "distinct (map fst resources)
        \<and> crtbResources_loop c crGet binding subject role resources [] desired = Inr (rtv', desired')"
  let ?name = "rtb_Name binding @ ''-'' @ rt_Name role"
  from crtbResources_loop_char[of resources c crGet binding subject role "[]" desired rtv' desired'] h
  have m: "map_of rtv' = stagedVerbs crGet role resources"
    and d: "desired' =
         (if \<exists>resource. stagedVerbs crGet role resources resource \<noteq> None
          then (if map_of desired ?name = None
                then AList.update ?name (crtbDesiredBinding c binding subject role) desired
                else desired)
          else desired)"
    by auto
  show "map_of rtv' = stagedVerbs crGet role resources" by (rule m)
  show "map_of rtv' ''catalogtemplates'' = None" if "\<not> Administrative role"
    using that by (simp add: m stagedVerbs_def skipped_def split: option.splits)
  show "map_of rtv' ''catalogtemplateversions'' = None" if "\<not> Administrative role"
    using that by (simp add: m stagedVerbs_def skipped_def split: option.splits)
  show "\<forall>resource apiGroup verbs. (resource, apiGroup) \<in> set resources
          \<and> checkForManagementPlaneRules crGet role resource apiGroup = Inr verbs \<and> verbs \<noteq> []
        \<longrightarrow> map_of rtv' resource = Some verbs" if "Administrative role"
  proof (intro allI impI)
    fix resource apiGroup verbs
    assume a: "(resource, apiGroup) \<in> set resources
          \<and> checkForManagementPlaneRules crGet role resource apiGroup = Inr verbs \<and> verbs \<noteq> []"
    with h have "map_of resources resource = Some apiGroup" by simp
    with a that show "map_of rtv' resource = Some verbs"
      by (simp add: m stagedVerbs_def skipped_def)
  qed
  show "desired' = desired" if "rtv' = []"
  proof -
    from that m have "stagedVerbs crGet role resources = Map.empty" by simp
    then have "\<not> (\<exists>resource. stagedVerbs crGet role resources resource \<noteq> None)" by simp
    with d show ?thesis by simp
  qed
  show "map_of desired' ?name \<noteq> None" if "rtv' \<noteq> []"
  proof -
    from that obtain r v rest where "rtv' = (r, v) # rest"
      by (cases rtv') auto
    then have "map_of rtv' r = Some v" by simp
    with m have "\<exists>resource. stagedVerbs crGet role resources resource \<noteq> None" by auto
    with d show ?thesis by (auto simp: update_conv')
  qed
qed

theorem crtbResources_loop_skips_witness:
  "crtbResources_loop testConstants (\<lambda>name. Inl NotFound) someBinding someSubject clusterMember
       [(''catalogtemplates'', ''management.cattle.io''), (''projects'', ''management.cattle.io'')] [] []
     = Inr ([(''projects'', [''get''])],
            [(''crtb-1-cluster-member'',
              crtbDesiredBinding testConstants someBinding someSubject clusterMember)])
   \<and> crtbResources_loop testConstants (\<lambda>name. Inl NotFound) someBinding someSubject clusterMember
       [(''catalogtemplates'', ''management.cattle.io'')] [] [] = Inr ([], [])
   \<and> (\<exists>rtv' desired'.
        crtbResources_loop testConstants (\<lambda>name. Inl NotFound) someBinding someSubject clusterOwner
          [(''catalogtemplates'', ''management.cattle.io''), (''projects'', ''management.cattle.io'')] [] []
          = Inr (rtv', desired')
        \<and> map_of rtv' ''catalogtemplates'' = Some [''get''])"
proof -
  let ?res = "[(''catalogtemplates'', ''management.cattle.io''), (''projects'', ''management.cattle.io'')]"
  let ?get = "\<lambda>name. Inl NotFound :: error + Role"
  note inst = crtbResources_loop_skips
  have na: "\<not> Administrative clusterMember" by (simp add: clusterMember_def)
  have p: "crtbResources_loop testConstants ?get someBinding someSubject clusterMember
       [(''projects'', ''management.cattle.io'')] [] []
     = Inr ([(''projects'', [''get''])],
            [(''crtb-1-cluster-member'',
              crtbDesiredBinding testConstants someBinding someSubject clusterMember)])"
    by (simp add: lookupBool_def commonClusterAndProjectMgmtPlaneResources_def
        checkForManagementPlaneRules_def clusterMember_def
        catalogRule_def ContainsString_def checkGroup_def setTrue_def someBinding_def)
  have f1: "filter (\<lambda>(resource, apiGroup). resource \<noteq> ''catalogtemplates''
                       \<and> resource \<noteq> ''catalogtemplateversions'') ?res
      = [(''projects'', ''management.cattle.io'')]"
    by simp
  have f2: "filter (\<lambda>(resource, apiGroup). resource \<noteq> ''catalogtemplates''
                       \<and> resource \<noteq> ''catalogtemplateversions'')
        [(''catalogtemplates'', ''management.cattle.io'')] = []"
    by simp
  have a: "crtbResources_loop testConstants ?get someBinding someSubject clusterMember ?res [] []
     = Inr ([(''projects'', [''get''])],
            [(''crtb-1-cluster-member'',
              crtbDesiredBinding testConstants someBinding someSubject clusterMember)])"
    using inst[of clusterMember testConstants ?get someBinding someSubject ?res "[]" "[]",
        THEN conjunct1, THEN mp, OF na]
    unfolding f1 p .
  have b: "crtbResources_loop testConstants ?get someBinding someSubject clusterMember
       [(''catalogtemplates'', ''management.cattle.io'')] [] [] = Inr ([], [])"
    using inst[of clusterMember testConstants ?get someBinding someSubject
        "[(''catalogtemplates'', ''management.cattle.io'')]" "[]" "[]",
        THEN conjunct1, THEN mp, OF na]
    unfolding f2 by simp
  have ad: "Administrative clusterOwner" by (simp add: clusterOwner_def)
  have chk: "checkForManagementPlaneRules ?get clusterOwner ''catalogtemplates''
      ''management.cattle.io'' = Inr [''get'']"
    by (simp add: checkForManagementPlaneRules_def clusterOwner_def catalogRule_def
        ContainsString_def checkGroup_def setTrue_def)
  obtain rtv' desired' where r: "crtbResources_loop testConstants ?get someBinding someSubject
      clusterOwner ?res [] [] = Inr (rtv', desired')"
    by (simp add: lookupBool_def commonClusterAndProjectMgmtPlaneResources_def
        checkForManagementPlaneRules_def clusterOwner_def
        catalogRule_def ContainsString_def checkGroup_def setTrue_def)
  have d: "distinct (map fst ?res)" by simp
  have mem: "(''catalogtemplates'', ''management.cattle.io'') \<in> set ?res" by simp
  from inst[where role = clusterOwner and c = testConstants and crGet = ?get
      and binding = someBinding and subject = someSubject and resources = ?res
      and desired = "[]" and rtv' = rtv' and desired' = desired',
      THEN conjunct2, THEN conjunct2, THEN mp, OF conjI[OF d r]] ad
  have "\<forall>resource apiGroup verbs. (resource, apiGroup) \<in> set ?res
          \<and> checkForManagementPlaneRules ?get clusterOwner resource apiGroup = Inr verbs
          \<and> verbs \<noteq> []
        \<longrightarrow> map_of rtv' resource = Some verbs"
    by blast
  with mem chk have "map_of rtv' ''catalogtemplates'' = Some [''get'']"
    by blast
  with r a b show ?thesis by blast
qed

subsection \<open>waitUntilSSHKey\<close>

lemma waitUntilSSHKey_loop_returns:
  assumes "increments w = 2 ^ k" "sleeps w = map (\<lambda>i. 2 ^ i) [0..<k]" "k \<le> 5"
    and "(2 ^ k - 1) * second \<le> now w"
    and "\<forall>t \<in> set (missed w). \<not> keyExists env t \<and> t \<le> 15 * second"
    and "length (missed w) = length (sleeps w)"
  shows "\<exists>r w'. waitUntilSSHKey_loop env w = Some (r, w')
     \<and> (\<exists>n. sleeps w' = map (\<lambda>i. 2 ^ i) [0..<n] \<and> n \<le> 5)
     \<and> (\<forall>t \<in> set (missed w'). \<not> keyExists env t \<and> t \<le> 15 * second)
     \<and> length (missed w') = length (sleeps w')
     \<and> (r = None \<and> keyExists env (now w') \<and> now w' \<le> 15 * second
         \<or> r = Some (Timeout ''Timeout waiting for ssh key'') \<and> 15 * second < now w')"
  using assms
proof (induction "5 - k" arbitrary: k w)
  case 0
  then have k: "k = 5" by simp
  with "0.prems"(4) have "31 * second \<le> now w" by simp
  then have late: "15 * second < now w" by (simp add: second_def)
  then have "waitUntilSSHKey_loop env w = Some (Some (Timeout ''Timeout waiting for ssh key''), w)"
    by (subst waitUntilSSHKey_loop.simps) simp
  with late "0.prems" show ?case by blast
next
  case (Suc n)
  then have k: "k < 5" "n = 5 - Suc k" by simp_all
  show ?case
  proof (cases "15 * second < now w")
    case True
    then have "waitUntilSSHKey_loop env w = Some (Some (Timeout ''Timeout waiting for ssh key''), w)"
      by (subst waitUntilSSHKey_loop.simps) simp
    with True Suc.prems show ?thesis by blast
  next
    case early: False
    show ?thesis
    proof (cases "keyExists env (now w)")
      case True
      with early have "waitUntilSSHKey_loop env w = Some (None, w)"
        by (subst waitUntilSSHKey_loop.simps) simp
      with True early Suc.prems show ?thesis
        by (intro exI[of _ None] exI[of _ w]) auto
    next
      case False
      let ?w = "w\<lparr>now := now w + increments w * second + lag env (now w),
             increments := increments w * 2,
             sleeps := sleeps w @ [increments w],
             missed := missed w @ [now w]\<rparr>"
      have step: "waitUntilSSHKey_loop env w = waitUntilSSHKey_loop env ?w"
        using early False by (subst waitUntilSSHKey_loop.simps) simp
      have p1: "increments ?w = 2 ^ Suc k" using Suc.prems(1) by simp
      have p2: "sleeps ?w = map (\<lambda>i. 2 ^ i) [0..<Suc k]" using Suc.prems(1,2) by simp
      have p3: "Suc k \<le> 5" using k by simp
      have "(2 ^ Suc k - 1) * second = (2 ^ k - 1) * second + 2 ^ k * second"
        by (simp add: algebra_simps)
      then have p4: "(2 ^ Suc k - 1) * second \<le> now ?w"
        using Suc.prems(1,4) by simp
      have p5: "\<forall>t \<in> set (missed ?w). \<not> keyExists env t \<and> t \<le> 15 * second"
        using Suc.prems(5) False early by auto
      have p6: "length (missed ?w) = length (sleeps ?w)"
        using Suc.prems(6) by simp
      from Suc.hyps(1)[OF k(2) p1 p2 p3 p4 p5 p6] show ?thesis
        unfolding step .
    qed
  qed
qed

text \<open>
  C9 (amended). For every behaviour of the file system and of the clock,
  waitUntilSSHKey returns. It sleeps 1, 2, 4, ... seconds, at most five times, once
  after each poll that does not find the key file; every such poll was made with not
  more than 15 seconds elapsed. It returns nil only at a poll, made with not more than
  15 seconds elapsed, that finds the file: at the first such poll, not as soon as the
  file exists. Otherwise it returns the timeout error, at the first clock reading of
  more than 15 seconds, whether or not the file exists by then.
\<close>

theorem waitUntilSSHKey_terminates:
  "\<exists>r w. waitUntilSSHKey env t0 = Some (r, w)
     \<and> (\<exists>n. sleeps w = map (\<lambda>i. 2 ^ i) [0..<n] \<and> n \<le> 5)
     \<and> (\<forall>t \<in> set (missed w). \<not> keyExists env t \<and> t \<le> 15 * second)
     \<and> length (missed w) = length (sleeps w)
     \<and> (r = None \<and> keyExists env (now w) \<and> now w \<le> 15 * second
         \<or> r = Some (Timeout ''Timeout waiting for ssh key'') \<and> 15 * second < now w)"
  unfolding waitUntilSSHKey_def
  by (rule waitUntilSSHKey_loop_returns[where k = 0]) simp_all

lemma waitUntilSSHKey_example:
  "waitUntilSSHKey \<lparr>keyExists = (\<lambda>t. 3 * second \<le> t), lag = (\<lambda>t. 1000)\<rparr> 0
     = Some (None, \<lparr>now = 3000002000, increments = 4, sleeps = [1, 2],
                    missed = [0, 1000001000]\<rparr>)"
  unfolding waitUntilSSHKey_def
  apply (subst waitUntilSSHKey_loop.simps, simp add: second_def)
  apply (subst waitUntilSSHKey_loop.simps, simp add: second_def)
  apply (subst waitUntilSSHKey_loop.simps, simp add: second_def)
  done

theorem waitUntilSSHKey_terminates_witness:
  "\<exists>r w. waitUntilSSHKey \<lparr>keyExists = (\<lambda>t. 3 * second \<le> t), lag = (\<lambda>t. 1000)\<rparr> 0 = Some (r, w)
     \<and> (\<exists>n. sleeps w = map (\<lambda>i. 2 ^ i) [0..<n] \<and> n \<le> 5)
     \<and> length (missed w) = length (sleeps w)
     \<and> (r = None \<and> now w \<le> 15 * second
         \<or> r = Some (Timeout ''Timeout waiting for ssh key'') \<and> 15 * second < now w)"
  using waitUntilSSHKey_terminates[of "\<lparr>keyExists = (\<lambda>t. 3 * second \<le> t), lag = (\<lambda>t. 1000)\<rparr>" 0]
  by blast

text \<open>
  C9 as stated fails: the function does not return nil as soon as the key file exists.
  With a file that exists from 9 seconds on, the polls at about 0, 1, 3 and 7 seconds
  miss it, the function sleeps 8 seconds, and the clock reading of about 15 seconds,
  when the file has existed for 6 seconds, is past the ceiling: the timeout error is
  returned without another poll.
\<close>

theorem waitUntilSSHKey_counterexample:
  "waitUntilSSHKey \<lparr>keyExists = (\<lambda>t. 9 * second \<le> t), lag = (\<lambda>t. 1000)\<rparr> 0
     = Some (Some (Timeout ''Timeout waiting for ssh key''),
             \<lparr>now = 15000004000, increments = 16, sleeps = [1, 2, 4, 8],
              missed = [0, 1000001000, 3000002000, 7000003000]\<rparr>)
   \<and> keyExists \<lparr>keyExists = (\<lambda>t. 9 * second \<le> t), lag = (\<lambda>t. 1000)\<rparr> 15000004000"
  unfolding waitUntilSSHKey_def
  apply (subst waitUntilSSHKey_loop.simps, simp add: second_def)
  apply (subst waitUntilSSHKey_loop.simps, simp add: second_def)
  apply (subst waitUntilSSHKey_loop.simps, simp add: second_def)
  apply (subst waitUntilSSHKey_loop.simps, simp add: second_def)
  apply (subst waitUntilSSHKey_loop.simps, simp add: second_def)
  done

subsection \<open>Membership bindings\<close>

lemma tagged_index:
  "((namespace, rtbUID) \<in> set (indexByMembershipBindingOwner c rb)) = tagged c namespace rtbUID rb"
  by (auto simp: indexByMembershipBindingOwner_def tagged_def)

lemma labels_loop_eq:
  "labels_loop c rtbUID visit labels other =
     (if (rtbUID, membershipBindingOwner c) \<in> set visit then AList.delete rtbUID labels else labels,
      other \<or> (\<exists>(k, v) \<in> set visit. v = membershipBindingOwner c \<and> k \<noteq> rtbUID))"
proof (induction visit arbitrary: labels other)
  case Nil
  show ?case by simp
next
  case (Cons p visit)
  obtain k v where p: "p = (k, v)" by (cases p)
  show ?case
    unfolding p by (auto simp: Cons.IH delete_idem)
qed

lemma clusterCandidates_loop_eq:
  "clusterCandidates_loop key (map ClusterRoleBindingObj rbs) found =
     (if \<exists>rb \<in> set rbs. Subjects rb = [] then Inl PanicIndexOutOfRange
      else Inr (candidates key rbs found))"
proof (induction rbs arbitrary: found)
  case Nil
  show ?case by simp
next
  case (Cons rb rbs)
  show ?case
    by (cases "Subjects rb") (auto simp: Cons.IH)
qed

lemma projectCandidates_loop_eq:
  "projectCandidates_loop key (map RoleBindingObj rbs) found =
     (if \<exists>rb \<in> set rbs. Subjects rb = [] then Inl PanicIndexOutOfRange
      else Inr (candidates key rbs found))"
proof (induction rbs arbitrary: found)
  case Nil
  show ?case by simp
next
  case (Cons rb rbs)
  show ?case
    by (cases "Subjects rb") (auto simp: Cons.IH)
qed

lemma reconcile_loop_cluster:
  "reconcileMembershipBindingForDelete_loop c roleToKeep rtbUID convert client
     (map ClusterRoleBindingObj rbs) s = (None, s)"
  by (induction rbs) simp_all

lemma isBinding_key: "isBinding namespace name rb = (bindingKey rb = (namespace, name))"
  by (auto simp: isBinding_def bindingKey_def)

lemma replace_at_key:
  assumes "distinct (map bindingKey (pre @ x # post))" "bindingKey x = k"
  shows "map (\<lambda>b. if bindingKey b = k then y else b) (pre @ x # post) = pre @ y # post"
proof -
  have "bindingKey b \<noteq> k" if "b \<in> set pre \<union> set post" for b
    using assms that by (auto simp: image_iff)
  then have "map (\<lambda>b. if bindingKey b = k then y else b) pre = pre"
    "map (\<lambda>b. if bindingKey b = k then y else b) post = post"
    by (simp_all add: map_idI)
  with assms(2) show ?thesis by simp
qed

lemma remove_at_key:
  assumes "distinct (map bindingKey (pre @ x # post))" "bindingKey x = k"
  shows "filter (\<lambda>b. bindingKey b \<noteq> k) (pre @ x # post) = pre @ post"
proof -
  have "bindingKey b \<noteq> k" if "b \<in> set pre \<union> set post" for b
    using assms that by (auto simp: image_iff)
  then have "filter (\<lambda>b. bindingKey b \<noteq> k) pre = pre"
    "filter (\<lambda>b. bindingKey b \<noteq> k) post = post"
    by (simp_all add: filter_id_conv)
  with assms(2) show ?thesis by simp
qed

lemma updateBinding_project:
  assumes "st_RoleBindings s = pre @ x # post" "distinct (map bindingKey (pre @ x # post))"
    and "bindingKey x = (namespace, name)" "bindingKey y = (namespace, name)"
  shows "updateBinding (RoleBindingsClient namespace) name y s
       = (None, s\<lparr>st_RoleBindings := pre @ y # post\<rparr>)"
proof -
  have "map (\<lambda>b. if bindingKey b = (namespace, name) then y else b) (pre @ x # post)
      = pre @ y # post"
    using assms(2,3) by (rule replace_at_key)
  moreover have "rb_Namespace y = namespace" "rb_Name y = name"
    using assms(4) by (simp_all add: bindingKey_def)
  moreover have "\<exists>b \<in> set (pre @ x # post). bindingKey b = (namespace, name)"
    using assms(3) by auto
  ultimately show ?thesis
    unfolding updateBinding_def Let_def isBinding_key
    by (simp only: bindingNamespace.simps bindingsOf.simps setBindings.simps assms(1)) simp
qed

lemma deleteBinding_project:
  assumes "st_RoleBindings s = pre @ x # post" "distinct (map bindingKey (pre @ x # post))"
    and "bindingKey x = (namespace, name)"
  shows "deleteBinding (RoleBindingsClient namespace) name s
       = (None, s\<lparr>st_RoleBindings := pre @ post\<rparr>)"
proof -
  have "filter (\<lambda>b. bindingKey b \<noteq> (namespace, name)) (pre @ x # post) = pre @ post"
    using assms(2,3) by (rule remove_at_key)
  moreover have "\<exists>b \<in> set (pre @ x # post). bindingKey b = (namespace, name)"
    using assms(3) by auto
  ultimately show ?thesis
    unfolding deleteBinding_def Let_def isBinding_key
    by (simp only: bindingNamespace.simps bindingsOf.simps setBindings.simps assms(1)) simp
qed

lemma convertRoleBinding_RoleBinding [simp]:
  "convertRoleBinding (RoleBindingObj rb) = Inr (ref_Name (RoleRef rb))"
  by (simp add: convertRoleBinding_def)

lemma reconcile_step:
  assumes d: "distinct (map bindingKey (pre @ x # post))"
    and st: "st_RoleBindings s = pre @ x # post"
    and t: "tagged c namespace rtbUID x"
    and role: "ref_Name (RoleRef x) \<noteq> roleToKeep"
  shows "reconcileMembershipBindingForDelete_loop c roleToKeep rtbUID convertRoleBinding
           (RoleBindingsClient namespace) (RoleBindingObj x # objs) s
     = reconcileMembershipBindingForDelete_loop c roleToKeep rtbUID convertRoleBinding
           (RoleBindingsClient namespace) objs
           (s\<lparr>st_RoleBindings :=
                pre @ (case reconciled c namespace roleToKeep rtbUID x of
                         None \<Rightarrow> [] | Some y \<Rightarrow> [y]) @ post\<rparr>)"
proof -
  let ?rec = "reconciled c namespace roleToKeep rtbUID"
  from t have ns: "rb_Namespace x = namespace"
    and lab: "(rtbUID, membershipBindingOwner c) \<in> set (rb_Labels x)"
    by (auto simp: tagged_def)
  have ll: "labels_loop c rtbUID (rb_Labels x) (rb_Labels x) False
      = (AList.delete rtbUID (rb_Labels x), otherOwnersOf c rtbUID x)"
    using lab by (simp add: labels_loop_eq otherOwnersOf_def)
  let ?k = "(rb_Namespace x, rb_Name x)"
  have kx: "bindingKey x = ?k" by (simp add: bindingKey_def)
  let ?s1 = "setLabels x (AList.delete rtbUID (rb_Labels x)) s"
  have "st_RoleBindings ?s1
      = map (\<lambda>b. if bindingKey b = ?k then b\<lparr>rb_Labels := AList.delete rtbUID (rb_Labels x)\<rparr> else b)
          (pre @ x # post)"
    by (simp add: setLabels_def isBinding_key st)
  also have "\<dots> = map (\<lambda>b. if bindingKey b = ?k then stripped rtbUID x else b) (pre @ x # post)"
  proof (rule map_cong[OF refl])
    fix b assume b: "b \<in> set (pre @ x # post)"
    have inj: "inj_on bindingKey (set (pre @ x # post))"
      using d distinct_map by blast
    have "b = x" if "bindingKey b = ?k"
      using inj_onD[OF inj, of b x] b that kx by simp
    then show "(if bindingKey b = ?k then b\<lparr>rb_Labels := AList.delete rtbUID (rb_Labels x)\<rparr> else b)
        = (if bindingKey b = ?k then stripped rtbUID x else b)"
      by (auto simp: stripped_def)
  qed
  also have "\<dots> = pre @ stripped rtbUID x # post"
    using d kx by (rule replace_at_key)
  finally have s1: "st_RoleBindings ?s1 = pre @ stripped rtbUID x # post" .
  have ks: "bindingKey (stripped rtbUID x) = ?k"
    by (simp add: bindingKey_def stripped_def)
  have d1: "distinct (map bindingKey (pre @ stripped rtbUID x # post))"
    using d ks kx by simp
  have "?s1 = s\<lparr>st_RoleBindings := st_RoleBindings ?s1\<rparr>"
    by (simp add: setLabels_def)
  then have e1: "?s1 = s\<lparr>st_RoleBindings := pre @ stripped rtbUID x # post\<rparr>"
    unfolding s1 .
  show ?thesis
  proof (cases "otherOwnersOf c rtbUID x")
    case oo: True
    then have r: "?rec x = Some (stripped rtbUID x)"
      using t role by (simp add: reconciled_def)
    have "updateBinding (RoleBindingsClient namespace) (rb_Name x) (stripped rtbUID x) ?s1
        = (None, ?s1\<lparr>st_RoleBindings := pre @ stripped rtbUID x # post\<rparr>)"
      using s1 d1 by (rule updateBinding_project) (simp_all add: ks ns[symmetric])
    also have "?s1\<lparr>st_RoleBindings := pre @ stripped rtbUID x # post\<rparr> = ?s1"
      using s1 by (cases ?s1) simp
    finally have up: "updateBinding (RoleBindingsClient namespace) (rb_Name x)
        (x\<lparr>rb_Labels := AList.delete rtbUID (rb_Labels x)\<rparr>) ?s1 = (None, ?s1)"
      by (simp add: stripped_def)
    have step: "reconcileMembershipBindingForDelete_loop c roleToKeep rtbUID convertRoleBinding
         (RoleBindingsClient namespace) (RoleBindingObj x # objs) s
       = reconcileMembershipBindingForDelete_loop c roleToKeep rtbUID convertRoleBinding
         (RoleBindingsClient namespace) objs ?s1"
      using role oo by (simp add: ll up)
    have "?s1 = s\<lparr>st_RoleBindings := pre @ (case ?rec x of None \<Rightarrow> [] | Some y \<Rightarrow> [y]) @ post\<rparr>"
      unfolding r using e1 by simp
    then show ?thesis
      unfolding step by simp
  next
    case no: False
    then have r: "?rec x = None"
      using t role by (simp add: reconciled_def)
    have del: "deleteBinding (RoleBindingsClient namespace) (rb_Name x) ?s1
        = (None, ?s1\<lparr>st_RoleBindings := pre @ post\<rparr>)"
      using s1 d1 by (rule deleteBinding_project) (simp add: ks ns[symmetric])
    have step: "reconcileMembershipBindingForDelete_loop c roleToKeep rtbUID convertRoleBinding
         (RoleBindingsClient namespace) (RoleBindingObj x # objs) s
       = reconcileMembershipBindingForDelete_loop c roleToKeep rtbUID convertRoleBinding
         (RoleBindingsClient namespace) objs (?s1\<lparr>st_RoleBindings := pre @ post\<rparr>)"
      using role no by (simp add: ll del)
    have "?s1\<lparr>st_RoleBindings := pre @ post\<rparr>
        = s\<lparr>st_RoleBindings := pre @ (case ?rec x of None \<Rightarrow> [] | Some y \<Rightarrow> [y]) @ post\<rparr>"
      unfolding r by (simp add: setLabels_def)
    then show ?thesis
      unfolding step by simp
  qed
qed

lemma map_filter_append_eq:
  "List.map_filter g (xs @ ys) = List.map_filter g xs @ List.map_filter g ys"
  by (simp add: map_filter_def)

lemma map_filter_cong_set:
  "(\<And>x. x \<in> set xs \<Longrightarrow> g x = h x) \<Longrightarrow> List.map_filter g xs = List.map_filter h xs"
proof (induction xs)
  case Nil
  show ?case by (simp add: map_filter_simps)
next
  case (Cons a xs)
  have "g a = h a" by (rule Cons.prems) simp
  moreover have "List.map_filter g xs = List.map_filter h xs"
    by (rule Cons.IH) (simp add: Cons.prems)
  ultimately show ?case by (simp add: map_filter_simps split: option.splits)
qed

lemma map_filter_Some: "List.map_filter Some xs = xs"
  by (induction xs) (simp_all add: map_filter_simps)

lemma reconcile_loop_project:
  assumes "distinct (map bindingKey (st_RoleBindings s))"
    and "set objs \<subseteq> set (st_RoleBindings s)"
    and "distinct (map bindingKey objs)"
    and "\<forall>x \<in> set objs. tagged c namespace rtbUID x"
  shows "reconcileMembershipBindingForDelete_loop c roleToKeep rtbUID convertRoleBinding
           (RoleBindingsClient namespace) (map RoleBindingObj objs) s
     = (None, s\<lparr>st_RoleBindings :=
                  List.map_filter
                    (\<lambda>b. if b \<in> set objs then reconciled c namespace roleToKeep rtbUID b else Some b)
                    (st_RoleBindings s)\<rparr>)"
  using assms
proof (induction objs arbitrary: s)
  case Nil
  show ?case by (simp add: map_filter_Some)
next
  case (Cons x objs)
  let ?rec = "reconciled c namespace roleToKeep rtbUID"
  let ?h = "\<lambda>objs b. if b \<in> set objs then ?rec b else Some b"
  from Cons.prems(2) obtain pre post where shape: "st_RoleBindings s = pre @ x # post"
    by (auto dest: split_list)
  have d: "distinct (map bindingKey (pre @ x # post))"
    using Cons.prems(1) shape by simp
  have notx: "bindingKey o' \<noteq> bindingKey x" if "o' \<in> set objs" for o'
  proof -
    have "bindingKey x \<notin> set (map bindingKey objs)" using Cons.prems(3) by simp
    moreover have "bindingKey o' \<in> set (map bindingKey objs)" using that by simp
    ultimately show ?thesis by metis
  qed
  have others: "b \<noteq> x \<and> bindingKey b \<noteq> bindingKey x" if "b \<in> set pre \<union> set post" for b
  proof -
    have "bindingKey x \<notin> set (map bindingKey pre) \<union> set (map bindingKey post)"
      using d by simp
    moreover have "bindingKey b \<in> set (map bindingKey pre) \<union> set (map bindingKey post)"
      using that by auto
    ultimately show ?thesis by metis
  qed
  have tx: "tagged c namespace rtbUID x" using Cons.prems(4) by simp
  have rest: "?h (x # objs) b = ?h objs b" if "b \<in> set pre \<union> set post" for b
    using others[OF that] by simp
  show ?case
  proof (cases "ref_Name (RoleRef x) = roleToKeep")
    case True
    then have rx: "?rec x = Some x" by (simp add: reconciled_def)
    have "reconcileMembershipBindingForDelete_loop c roleToKeep rtbUID convertRoleBinding
           (RoleBindingsClient namespace) (map RoleBindingObj (x # objs)) s
       = reconcileMembershipBindingForDelete_loop c roleToKeep rtbUID convertRoleBinding
           (RoleBindingsClient namespace) (map RoleBindingObj objs) s"
      using True by simp
    also have "\<dots> = (None, s\<lparr>st_RoleBindings := List.map_filter (?h objs) (st_RoleBindings s)\<rparr>)"
      using Cons.prems by (intro Cons.IH) auto
    also have "List.map_filter (?h objs) (st_RoleBindings s)
        = List.map_filter (?h (x # objs)) (st_RoleBindings s)"
    proof (rule map_filter_cong_set)
      fix b assume "b \<in> set (st_RoleBindings s)"
      show "?h objs b = ?h (x # objs) b"
        using rx notx by (cases "b = x") auto
    qed
    finally show ?thesis .
  next
    case False
    let ?mid = "case ?rec x of None \<Rightarrow> [] | Some y \<Rightarrow> [y]"
    let ?s' = "s\<lparr>st_RoleBindings := pre @ ?mid @ post\<rparr>"
    have mid: "?mid = [] \<or> ?mid = [stripped rtbUID x]"
      using tx False by (simp add: reconciled_def)
    have ks: "bindingKey (stripped rtbUID x) = bindingKey x"
      by (simp add: bindingKey_def stripped_def)
    have "reconcileMembershipBindingForDelete_loop c roleToKeep rtbUID convertRoleBinding
           (RoleBindingsClient namespace) (map RoleBindingObj (x # objs)) s
       = reconcileMembershipBindingForDelete_loop c roleToKeep rtbUID convertRoleBinding
           (RoleBindingsClient namespace) (map RoleBindingObj objs) ?s'"
      using reconcile_step[OF d shape tx False] by simp
    also have "\<dots> = (None, ?s'\<lparr>st_RoleBindings := List.map_filter (?h objs) (st_RoleBindings ?s')\<rparr>)"
    proof (rule Cons.IH)
      have dd: "distinct (map bindingKey (pre @ post))" using d by simp
      have ds: "distinct (map bindingKey (pre @ stripped rtbUID x # post))" using d ks by simp
      from mid show "distinct (map bindingKey (st_RoleBindings ?s'))"
      proof (elim disjE)
        assume "?mid = []"
        then show ?thesis using dd by simp
      next
        assume "?mid = [stripped rtbUID x]"
        then show ?thesis using ds by simp
      qed
      show "set objs \<subseteq> set (st_RoleBindings ?s')"
      proof
        fix o' assume o': "o' \<in> set objs"
        then have "o' \<in> set (pre @ x # post)" using Cons.prems(2) shape by auto
        moreover have "o' \<noteq> x" using notx[OF o'] by auto
        ultimately show "o' \<in> set (st_RoleBindings ?s')" by auto
      qed
      show "distinct (map bindingKey objs)" using Cons.prems(3) by simp
      show "\<forall>x \<in> set objs. tagged c namespace rtbUID x" using Cons.prems(4) by simp
    qed
    also have "List.map_filter (?h objs) (st_RoleBindings ?s')
        = List.map_filter (?h (x # objs)) (st_RoleBindings s)"
    proof -
      have pre: "List.map_filter (?h objs) pre = List.map_filter (?h (x # objs)) pre"
      proof (rule map_filter_cong_set)
        fix b assume "b \<in> set pre"
        then have "b \<in> set pre \<union> set post" by simp
        from rest[OF this] show "?h objs b = ?h (x # objs) b" by (rule sym)
      qed
      have post: "List.map_filter (?h objs) post = List.map_filter (?h (x # objs)) post"
      proof (rule map_filter_cong_set)
        fix b assume "b \<in> set post"
        then have "b \<in> set pre \<union> set post" by simp
        from rest[OF this] show "?h objs b = ?h (x # objs) b" by (rule sym)
      qed
      have "stripped rtbUID x \<notin> set objs"
        using notx ks by metis
      then have "List.map_filter (?h objs) ?mid = ?mid"
        using mid by (auto simp: map_filter_simps)
      moreover have "List.map_filter (?h (x # objs)) [x] = ?mid"
        by (simp add: map_filter_simps split: option.splits)
      ultimately show ?thesis
        using pre post shape
        by (simp add: map_filter_append_eq map_filter_simps split: option.splits)
    qed
    finally show ?thesis by simp
  qed
qed

lemma asObj_eq [simp]: "asObj crbIndexer = ClusterRoleBindingObj" "asObj rbIndexer = RoleBindingObj"
  by (rule ext, simp)+

lemma createClusterMembershipRole_ok:
  "\<exists>s1. createClusterMembershipRole c roleName cluster makeOwner s = (None, s1)
     \<and> st_ClusterRoleBindings s1 = st_ClusterRoleBindings s
     \<and> st_RoleBindings s1 = st_RoleBindings s"
  by (auto simp: createClusterMembershipRole_def createMembershipRole_def createRole_def
      listerGetRole_def find_None_iff split: option.splits)

lemma createProjectMembershipRole_ok:
  "\<exists>s1. createProjectMembershipRole c roleName namespace project makeOwner s = (None, s1)
     \<and> st_ClusterRoleBindings s1 = st_ClusterRoleBindings s
     \<and> st_RoleBindings s1 = st_RoleBindings s"
  by (auto simp: createProjectMembershipRole_def createMembershipRole_def createRole_def
      listerGetRole_def find_None_iff split: option.splits)

lemma createBinding_error:
  "fst (createBinding gen client rb s) \<in> {None, Some BadRequest, Some AlreadyExists}"
  by (simp add: createBinding_def Let_def)

lemma updateBinding_error:
  "fst (updateBinding client name rb s) \<in> {None, Some BadRequest, Some NotFound}"
  by (simp add: updateBinding_def Let_def)

lemma deleteBinding_error:
  "fst (deleteBinding client name s) \<in> {None, Some NotFound}"
  by (simp add: deleteBinding_def Let_def)

lemma reconcile_loop_no_panic:
  "fst (reconcileMembershipBindingForDelete_loop c roleToKeep rtbUID convertRoleBinding client
          (map RoleBindingObj rbs) s) \<noteq> Some PanicIndexOutOfRange"
proof (induction rbs arbitrary: s)
  case Nil
  show ?case by simp
next
  case (Cons x rbs)
  obtain labels other where ll: "labels_loop c rtbUID (rb_Labels x) (rb_Labels x) False = (labels, other)"
    by (cases "labels_loop c rtbUID (rb_Labels x) (rb_Labels x) False")
  obtain e1 t1 where d: "deleteBinding client (rb_Name x) (setLabels x labels s) = (e1, t1)"
    by (cases "deleteBinding client (rb_Name x) (setLabels x labels s)")
  obtain e2 t2 where u: "updateBinding client (rb_Name x) (x\<lparr>rb_Labels := labels\<rparr>) (setLabels x labels s) = (e2, t2)"
    by (cases "updateBinding client (rb_Name x) (x\<lparr>rb_Labels := labels\<rparr>) (setLabels x labels s)")
  have e1: "e1 \<in> {None, Some NotFound}"
    using deleteBinding_error[of client "rb_Name x" "setLabels x labels s"] d by simp
  have e2: "e2 \<in> {None, Some BadRequest, Some NotFound}"
    using updateBinding_error[of client "rb_Name x" "x\<lparr>rb_Labels := labels\<rparr>" "setLabels x labels s"] u
    by simp
  show ?case
    using e1 e2 Cons.IH by (auto simp: ll d u Let_def split: option.splits)
qed

lemma ensureCluster_panics:
  "(fst (ensureClusterMembershipBinding order c gen roleName rtbUID cluster makeOwner subject s)
      = Some PanicIndexOutOfRange)
   = (\<exists>rb \<in> set (ByIndex order (indexByMembershipBindingOwner c) ([], rtbUID) (st_ClusterRoleBindings s)).
        Subjects rb = [])"
proof -
  obtain s1 where r: "createClusterMembershipRole c roleName cluster makeOwner s = (None, s1)"
    and b: "st_ClusterRoleBindings s1 = st_ClusterRoleBindings s"
    using createClusterMembershipRole_ok by blast
  let ?T = "ByIndex order (indexByMembershipBindingOwner c) ([], rtbUID) (st_ClusterRoleBindings s)"
  let ?key = "rbRoleSubjectKey roleName subject"
  have ix: "byMembershipBindingOwner order c crbIndexer [] rtbUID s1 = map ClusterRoleBindingObj ?T"
    by (simp add: byMembershipBindingOwner_def b)
  have rec: "reconcileClusterMembershipBindingForDelete order c roleName rtbUID s1 = (None, s1)"
    by (simp add: reconcileClusterMembershipBindingForDelete_def
        reconcileMembershipBindingForDelete_def ix reconcile_loop_cluster)
  show ?thesis
  proof (cases "\<exists>rb \<in> set ?T. Subjects rb = []")
    case True
    then show ?thesis
      by (simp add: ensureClusterMembershipBinding_def r Let_def ix clusterCandidates_loop_eq)
  next
    case False
    have c1: "fst (createBinding gen ClusterRoleBindingsClient rb s1) \<noteq> Some PanicIndexOutOfRange" for rb
      using createBinding_error[of gen ClusterRoleBindingsClient rb s1] by auto
    have u1: "fst (updateBinding ClusterRoleBindingsClient name rb s1) \<noteq> Some PanicIndexOutOfRange"
      for name rb
      using updateBinding_error[of ClusterRoleBindingsClient name rb s1] by auto
    from False show ?thesis
      by (simp add: ensureClusterMembershipBinding_def r Let_def ix clusterCandidates_loop_eq
          rec c1 u1 split: list.splits obj.splits)
  qed
qed

lemma ensureProject_panics:
  "(fst (ensureProjectMembershipBinding order c gen roleName rtbUID namespace project makeOwner subject s)
      = Some PanicIndexOutOfRange)
   = (\<exists>rb \<in> set (ByIndex order (indexByMembershipBindingOwner c) (namespace, rtbUID) (st_RoleBindings s)).
        Subjects rb = [])"
proof -
  obtain s1 where r: "createProjectMembershipRole c roleName namespace project makeOwner s = (None, s1)"
    and b: "st_RoleBindings s1 = st_RoleBindings s"
    using createProjectMembershipRole_ok by blast
  let ?T = "ByIndex order (indexByMembershipBindingOwner c) (namespace, rtbUID) (st_RoleBindings s)"
  let ?key = "rbRoleSubjectKey roleName subject"
  have ix: "byMembershipBindingOwner order c rbIndexer namespace rtbUID s1 = map RoleBindingObj ?T"
    by (simp add: byMembershipBindingOwner_def b)
  show ?thesis
  proof (cases "\<exists>rb \<in> set ?T. Subjects rb = []")
    case True
    then show ?thesis
      by (simp add: ensureProjectMembershipBinding_def r Let_def ix projectCandidates_loop_eq)
  next
    case False
    obtain e2 s2 where rec: "reconcileProjectMembershipBindingForDelete order c namespace roleName rtbUID s1 = (e2, s2)"
      by (cases "reconcileProjectMembershipBindingForDelete order c namespace roleName rtbUID s1")
    have e2: "e2 \<noteq> Some PanicIndexOutOfRange"
      using reconcile_loop_no_panic[of c roleName rtbUID "RoleBindingsClient namespace" ?T s1] rec
      by (simp add: reconcileProjectMembershipBindingForDelete_def
          reconcileMembershipBindingForDelete_def ix)
    have c1: "fst (createBinding gen (RoleBindingsClient namespace) rb s2) \<noteq> Some PanicIndexOutOfRange" for rb
      using createBinding_error[of gen "RoleBindingsClient namespace" rb s2] by auto
    have u1: "fst (updateBinding (RoleBindingsClient namespace) name rb s2) \<noteq> Some PanicIndexOutOfRange"
      for name rb
      using updateBinding_error[of "RoleBindingsClient namespace" name rb s2] by auto
    show ?thesis
    proof (cases e2)
      case None
      with False show ?thesis
        by (simp add: ensureProjectMembershipBinding_def r Let_def ix projectCandidates_loop_eq
            rec c1 u1 split: list.splits obj.splits)
    next
      case (Some err)
      with False e2 show ?thesis
        by (simp add: ensureProjectMembershipBinding_def r Let_def ix projectCandidates_loop_eq rec)
    qed
  qed
qed

text \<open>
  C10 (implicit). \<^verbatim>\<open>ensureClusterMembershipBinding\<close> and
  \<^verbatim>\<open>ensureProjectMembershipBinding\<close> panic with an index out of range exactly when a
  binding that the index of membership binding owners returns for the binding UID has
  no subject: the loop over the candidates reads \<^verbatim>\<open>Subjects[0]\<close> of every binding
  whose number of subjects is not 1. No other step of the two functions panics so, and
  the panic is not an error the functions return.
\<close>

theorem ensureMembershipBinding_panics:
  "((fst (ensureClusterMembershipBinding order c gen roleName rtbUID cluster makeOwner subject s)
       = Some PanicIndexOutOfRange)
    = (\<exists>rb \<in> set (ByIndex order (indexByMembershipBindingOwner c) ([], rtbUID) (st_ClusterRoleBindings s)).
         Subjects rb = []))
   \<and> ((fst (ensureProjectMembershipBinding order c gen roleName rtbUID namespace project makeOwner subject s)
       = Some PanicIndexOutOfRange)
    = (\<exists>rb \<in> set (ByIndex order (indexByMembershipBindingOwner c) (namespace, rtbUID) (st_RoleBindings s)).
         Subjects rb = []))"
  using ensureCluster_panics ensureProject_panics by simp

theorem ensureMembershipBinding_panics_witness:
  "fst (ensureClusterMembershipBinding rev testConstants generated ''c-1-clustermember'' ''uid-1''
          someCluster False memberSubject
          (emptyStore\<lparr>st_ClusterRoleBindings := [oldBinding [] ''c-1-clusterowner'' []]\<rparr>))
     = Some PanicIndexOutOfRange
   \<and> fst (ensureProjectMembershipBinding rev testConstants generated ''p-1-projectmember'' ''uid-1''
          ''c-1'' someProject False memberSubject
          (emptyStore\<lparr>st_RoleBindings := [oldBinding ''c-1'' ''p-1-projectmember'' [memberSubject]]\<rparr>))
     \<noteq> Some PanicIndexOutOfRange"
proof -
  note cluster = ensureMembershipBinding_panics[where c = testConstants and rtbUID = "''uid-1''"
      and order = rev and s = "emptyStore\<lparr>st_ClusterRoleBindings := [oldBinding [] ''c-1-clusterowner'' []]\<rparr>",
      THEN conjunct1]
  note project = ensureMembershipBinding_panics[where c = testConstants and rtbUID = "''uid-1''"
      and order = rev and namespace = "''c-1''"
      and s = "emptyStore\<lparr>st_RoleBindings := [oldBinding ''c-1'' ''p-1-projectmember'' [memberSubject]]\<rparr>",
      THEN conjunct2]
  show ?thesis
    unfolding cluster project
    by (simp add: ByIndex_def tagged_index tagged_def emptyStore_def oldBinding_def
        testConstants_def memberSubject_def)
qed

lemma reconcileCluster_unchanged:
  "reconcileClusterMembershipBindingForDelete order c roleToKeep rtbUID s = (None, s)"
  by (simp add: reconcileClusterMembershipBindingForDelete_def
      reconcileMembershipBindingForDelete_def byMembershipBindingOwner_def reconcile_loop_cluster)

text \<open>
  C1. \<^verbatim>\<open>reconcileClusterMembershipBindingForDelete\<close> changes nothing, whatever the
  store holds: the loop of \<^verbatim>\<open>reconcileMembershipBindingForDelete\<close> passes over every
  object that is not a \<^verbatim>\<open>*v1.RoleBinding\<close>, and the index of the cluster variant holds
  cluster role bindings. A cluster role binding tagged with the binding UID whose role
  is not the role to keep so keeps its label and is neither deleted nor updated.
\<close>

theorem reconcileClusterMembershipBindingForDelete_unchanged:
  "reconcileClusterMembershipBindingForDelete order c roleToKeep rtbUID s = (None, s)"
  by (rule reconcileCluster_unchanged)

lemma map_filter_distinct_keys:
  "distinct (map bindingKey bs)
   \<Longrightarrow> distinct (map bindingKey (List.map_filter (reconciled c namespace roleToKeep rtbUID) bs))"
proof (induction bs)
  case Nil
  show ?case by (simp add: map_filter_simps)
next
  case (Cons x bs)
  have sub: "bindingKey ` set (List.map_filter (reconciled c namespace roleToKeep rtbUID) bs)
      \<subseteq> bindingKey ` set bs"
    by (auto simp: map_filter_def reconciled_def stripped_def bindingKey_def image_iff
        split: if_splits)
  have k: "bindingKey y = bindingKey x" if "reconciled c namespace roleToKeep rtbUID x = Some y" for y
    using that by (auto simp: reconciled_def stripped_def bindingKey_def split: if_splits)
  from Cons sub k show ?case
    by (cases "reconciled c namespace roleToKeep rtbUID x") auto
qed

lemma reorders_set: "reorders order \<Longrightarrow> set (order objs) = set objs"
  by (simp add: reorders_def)

lemma reorders_length: "reorders order \<Longrightarrow> length (order objs) = length objs"
  by (simp add: reorders_def)

lemma reorders_short:
  assumes "reorders order" "length objs \<le> 1"
  shows "order objs = objs"
proof (cases objs)
  case Nil
  then show ?thesis using reorders_length[OF assms(1), of objs] by simp
next
  case (Cons x xs)
  with assms(2) have objs: "objs = [x]" by simp
  have "length (order objs) = 1" "set (order objs) = {x}"
    using reorders_length[OF assms(1), of objs] reorders_set[OF assms(1), of objs] objs by simp_all
  then show ?thesis
    unfolding objs by (cases "order [x]") auto
qed

lemma reorders_distinct_keys:
  assumes "reorders order" "distinct (map bindingKey objs)"
  shows "distinct (map bindingKey (order objs))"
proof -
  have "card (set (map bindingKey objs)) = length (map bindingKey objs)"
    using assms(2) by (rule distinct_card)
  then have "card (set (map bindingKey (order objs))) = length (map bindingKey (order objs))"
    using reorders_set[OF assms(1), of objs] reorders_length[OF assms(1), of objs] by simp
  then show ?thesis by (rule card_distinct)
qed

lemma reconcileProject_char:
  assumes d: "distinct (map bindingKey (st_RoleBindings s))" and ro: "reorders order"
  shows "reconcileProjectMembershipBindingForDelete order c namespace roleToKeep rtbUID s
     = (None, s\<lparr>st_RoleBindings :=
                  List.map_filter (reconciled c namespace roleToKeep rtbUID) (st_RoleBindings s)\<rparr>)"
proof -
  let ?T = "filter (tagged c namespace rtbUID) (st_RoleBindings s)"
  have dT: "distinct (map bindingKey ?T)"
    using d by (simp add: distinct_map_filter)
  have set: "set (order ?T) = set ?T" using ro by (rule reorders_set)
  have "reconcileMembershipBindingForDelete_loop c roleToKeep rtbUID convertRoleBinding
           (RoleBindingsClient namespace) (map RoleBindingObj (order ?T)) s
     = (None, s\<lparr>st_RoleBindings :=
                  List.map_filter
                    (\<lambda>b. if b \<in> set (order ?T) then reconciled c namespace roleToKeep rtbUID b
                         else Some b)
                    (st_RoleBindings s)\<rparr>)"
  proof (rule reconcile_loop_project)
    show "distinct (map bindingKey (st_RoleBindings s))" by (rule d)
    show "set (order ?T) \<subseteq> set (st_RoleBindings s)" unfolding set by auto
    show "distinct (map bindingKey (order ?T))" using ro dT by (rule reorders_distinct_keys)
    show "\<forall>x \<in> set (order ?T). tagged c namespace rtbUID x" unfolding set by simp
  qed
  moreover have "List.map_filter
        (\<lambda>b. if b \<in> set (order ?T) then reconciled c namespace roleToKeep rtbUID b else Some b)
        (st_RoleBindings s)
      = List.map_filter (reconciled c namespace roleToKeep rtbUID) (st_RoleBindings s)"
    unfolding set by (rule map_filter_cong_set) (simp add: reconciled_def)
  ultimately show ?thesis
    by (simp add: reconcileProjectMembershipBindingForDelete_def
        reconcileMembershipBindingForDelete_def byMembershipBindingOwner_def ByIndex_def tagged_index)
qed

lemma candidates_found:
  "(candidates key rbs found \<noteq> None) = (found \<noteq> None \<or> (\<exists>rb \<in> set rbs. matches key rb))"
  by (induction rbs arbitrary: found) (auto simp: matches_def)

lemma bindingsOf_setBindings [simp]: "bindingsOf client (setBindings client bs s) = bs"
  by (cases client) simp_all

lemma setBindings_same [simp]: "setBindings client (bindingsOf client s) s = s"
  by (cases client) simp_all

lemma setBindings_twice [simp]:
  "setBindings client bs (setBindings client bs' s) = setBindings client bs s"
  by (cases client) simp_all

lemma setBindings_roles [simp]:
  "st_ClusterRoles (setBindings client bs s) = st_ClusterRoles s"
  "st_Roles (setBindings client bs s) = st_Roles s"
  by (cases client, simp_all)+

lemma ensureRest_cases:
  assumes "ensureRest order c gen client new key rtbUID s2 = (r, s')"
  shows "s' = s2
    \<or> (r = None \<and> ByIndex order rbByRoleAndSubject key (bindingsOf client s2) = []
        \<and> s' = setBindings client
                 (bindingsOf client s2 @
                    [new\<lparr>rb_Name := (if rb_Name new = [] then rb_GenerateName new @ gen s2 else rb_Name new),
                         rb_Namespace := bindingNamespace client\<rparr>]) s2
        \<and> (bindingNamespace client,
             if rb_Name new = [] then rb_GenerateName new @ gen s2 else rb_Name new)
            \<notin> bindingKey ` set (bindingsOf client s2))
    \<or> (r = None \<and> (\<exists>rb0 objs. ByIndex order rbByRoleAndSubject key (bindingsOf client s2) = rb0 # objs
        \<and> rtbUID \<notin> fst ` set (rb_Labels rb0)
        \<and> s' = setBindings client
                 (map (\<lambda>b. if bindingKey b = bindingKey rb0
                     then rb0\<lparr>rb_Labels := AList.update rtbUID (membershipBindingOwner c) (rb_Labels rb0)\<rparr>
                     else b) (bindingsOf client s2)) s2))"
proof (cases "ByIndex order rbByRoleAndSubject key (bindingsOf client s2)")
  case Nil
  with assms show ?thesis
    by (auto simp: ensureRest_def createBinding_def Let_def isBinding_key image_iff
        split: if_splits)
next
  case (Cons rb0 objs)
  with assms show ?thesis
    by (auto simp: ensureRest_def updateBinding_def Let_def isBinding_key bindingKey_def
        split: if_splits)
qed

lemma ensureSteps_settled:
  assumes fixed: "f (bindingsOf client s) = bindingsOf client s"
    and nonempty: "\<forall>rb \<in> set (filter (tagged c (bindingNamespace client) rtbUID) (bindingsOf client s)).
        Subjects rb \<noteq> []"
    and first: "ByIndex order rbByRoleAndSubject (rbRoleSubjectKey roleName subject) (bindingsOf client s)
        = rb0 # objs"
    and label: "rtbUID \<in> fst ` set (rb_Labels rb0)"
  shows "ensureSteps order c gen client f new roleName rtbUID subject s = (None, s)"
proof -
  have "\<not> (\<exists>rb \<in> set (filter (tagged c (bindingNamespace client) rtbUID) (bindingsOf client s)).
        Subjects rb = [])"
    using nonempty by blast
  moreover have "ensureRest order c gen client new (rbRoleSubjectKey roleName subject) rtbUID s
      = (None, s)"
    using label by (simp add: ensureRest_def first)
  ultimately show ?thesis
    unfolding ensureSteps_def Let_def fixed setBindings_same by simp
qed

lemma ensureSteps_idem:
  fixes ok :: "RoleBinding \<Rightarrow> bool"
  assumes ro: "reorders order" and ro': "reorders order'"
    and one: "oneBinding roleName subject (bindingsOf client s1)"
    and f_one: "\<And>bs. oneBinding roleName subject bs \<Longrightarrow> oneBinding roleName subject (f bs)"
    and f_ok: "\<And>bs x. x \<in> set (f bs) \<Longrightarrow> ok x"
    and f_fix: "\<And>bs. (\<forall>x \<in> set bs. ok x) \<Longrightarrow> f bs = bs"
    and ok_role: "\<And>x. ref_Name (RoleRef x) = roleName \<Longrightarrow> ok x"
    and f_T: "\<And>bs. set (filter (tagged c (bindingNamespace client) rtbUID) (f bs))
        \<subseteq> set (filter (tagged c (bindingNamespace client) rtbUID) bs)"
    and f_match: "\<And>bs. (\<exists>x \<in> set (filter (tagged c (bindingNamespace client) rtbUID) (f bs)).
          matches (rbRoleSubjectKey roleName subject) x)
        = (\<exists>x \<in> set (filter (tagged c (bindingNamespace client) rtbUID) bs).
          matches (rbRoleSubjectKey roleName subject) x)"
    and new: "rb_Labels new = [(rtbUID, membershipBindingOwner c)]" "Subjects new = [subject]"
      "ref_Name (RoleRef new) = roleName"
    and run: "ensureSteps order c gen client f new roleName rtbUID subject s1 = (r, s')"
  shows "ensureSteps order' c gen client f new roleName rtbUID subject s' = (r, s')"
proof -
  let ?ns = "bindingNamespace client"
  let ?key = "rbRoleSubjectKey roleName subject"
  let ?T = "\<lambda>bs. filter (tagged c ?ns rtbUID) bs"
  let ?P = "\<lambda>rb. ?key \<in> set (rbByRoleAndSubject rb)"
  let ?bs = "bindingsOf client s1"
  let ?bs2 = "f ?bs"
  let ?s2 = "setBindings client ?bs2 s1"
  show ?thesis
  proof (cases "\<exists>rb \<in> set (?T ?bs). Subjects rb = []")
    case True
    have "(Some PanicIndexOutOfRange, s1) = (r, s')"
      using run unfolding ensureSteps_def Let_def if_P[OF True] .
    then have r: "r = Some PanicIndexOutOfRange" and s': "s' = s1" by simp_all
    show ?thesis
      unfolding r s' ensureSteps_def Let_def if_P[OF True] ..
  next
    case nonempty: False
    have ok2: "\<forall>x \<in> set ?bs2. ok x" using f_ok by blast
    have fix2: "f ?bs2 = ?bs2" using ok2 by (rule f_fix)
    have nonempty2: "\<not> (\<exists>rb \<in> set (?T ?bs2). Subjects rb = [])"
      using nonempty f_T[of ?bs] by blast
    have one2: "length (filter ?P ?bs2) \<le> 1"
      using f_one[OF one] by (simp add: oneBinding_def)
    have short: "order (filter ?P ?bs2) = filter ?P ?bs2" "order' (filter ?P ?bs2) = filter ?P ?bs2"
      using ro ro' one2 by (simp_all add: reorders_short)
    have restEq: "ensureRest order' c gen client new ?key rtbUID ?s2
        = ensureRest order c gen client new ?key rtbUID ?s2"
      by (simp add: ensureRest_def ByIndex_def short)
    have A: "ensureSteps order' c gen client f new roleName rtbUID subject ?s2
        = (if \<exists>rb \<in> set (?T ?bs). matches ?key rb then (None, ?s2)
           else ensureRest order' c gen client new ?key rtbUID ?s2)"
      unfolding ensureSteps_def[of order' c gen client f new roleName rtbUID subject ?s2] Let_def
        bindingsOf_setBindings fix2 setBindings_twice f_match[of ?bs] if_not_P[OF nonempty2] ..
    show ?thesis
    proof (cases "\<exists>rb \<in> set (?T ?bs). matches ?key rb")
      case True
      have "(None, ?s2) = (r, s')"
        using run unfolding ensureSteps_def Let_def if_not_P[OF nonempty] if_P[OF True] .
      with A True show ?thesis by simp
    next
      case nomatch: False
      have rest: "ensureRest order c gen client new ?key rtbUID ?s2 = (r, s')"
        using run unfolding ensureSteps_def Let_def if_not_P[OF nonempty] if_not_P[OF nomatch] .
      have nomatch2: "\<not> (\<exists>x \<in> set (?T ?bs2). matches ?key x)"
        using nomatch f_match[of ?bs] by simp
      from ensureRest_cases[OF rest] consider
        (same) "s' = ?s2"
        | (created) nb where "r = None" "ByIndex order rbByRoleAndSubject ?key ?bs2 = []"
          "s' = setBindings client (?bs2 @ [nb]) ?s2"
          "rb_Labels nb = rb_Labels new" "Subjects nb = Subjects new" "RoleRef nb = RoleRef new"
        | (updated) rb0 objs where "r = None" "ByIndex order rbByRoleAndSubject ?key ?bs2 = rb0 # objs"
          "rtbUID \<notin> fst ` set (rb_Labels rb0)"
          "s' = setBindings client
                 (map (\<lambda>b. if bindingKey b = bindingKey rb0
                     then rb0\<lparr>rb_Labels := AList.update rtbUID (membershipBindingOwner c) (rb_Labels rb0)\<rparr>
                     else b) ?bs2) ?s2"
        unfolding bindingsOf_setBindings by fastforce
      then show ?thesis
      proof cases
        case same
        show ?thesis
          unfolding same A if_not_P[OF nomatch] restEq using rest unfolding same .
      next
        case created
        let ?bs' = "?bs2 @ [nb]"
        have b': "bindingsOf client s' = ?bs'" by (simp add: created(3))
        have none: "filter ?P ?bs2 = []"
          using created(2) unfolding ByIndex_def short .
        have okn: "ok nb" using created(6) new(3) by (simp add: ok_role)
        have "f ?bs' = ?bs'" using ok2 okn by (intro f_fix) simp
        moreover have "\<forall>rb \<in> set (?T ?bs'). Subjects rb \<noteq> []"
          using nonempty2 created(5) new(2) by auto
        moreover have "ByIndex order' rbByRoleAndSubject ?key ?bs' = nb # []"
        proof -
          have "filter ?P ?bs' = [nb]"
            using none created(5,6) new(2,3) by (simp add: rbByRoleAndSubject_def)
          then show ?thesis
            unfolding ByIndex_def using reorders_short[OF ro', of "[nb]"] by simp
        qed
        moreover have "rtbUID \<in> fst ` set (rb_Labels nb)"
          using created(4) new(1) by simp
        ultimately show ?thesis
          unfolding created(1)
          using ensureSteps_settled[of f client s' c rtbUID order' roleName subject nb "[]" gen new]
          by (simp add: b')
      next
        case updated
        let ?rb0' = "rb0\<lparr>rb_Labels := AList.update rtbUID (membershipBindingOwner c) (rb_Labels rb0)\<rparr>"
        let ?g = "\<lambda>b. if bindingKey b = bindingKey rb0 then ?rb0' else b"
        let ?bs' = "map ?g ?bs2"
        have b': "bindingsOf client s' = ?bs'" by (simp add: updated(4))
        have R2: "filter ?P ?bs2 = [rb0]"
        proof -
          have "filter ?P ?bs2 = rb0 # objs"
            using updated(2) unfolding ByIndex_def short .
          with one2 show ?thesis by simp
        qed
        have "rb0 \<in> set (filter ?P ?bs2)" unfolding R2 by simp
        then have in0: "?P rb0" and mem0: "rb0 \<in> set ?bs2"
          by simp_all
        have only0: "b = rb0" if "b \<in> set ?bs2" "?P b" for b
        proof -
          have "b \<in> set (filter ?P ?bs2)" using that by simp
          then show ?thesis unfolding R2 by simp
        qed
        have role0: "ref_Name (RoleRef rb0) = roleName" and subj0: "Subjects rb0 \<noteq> []"
          using in0 by (auto simp: rbByRoleAndSubject_def rbRoleSubjectKey_def)
        have in0': "?P ?rb0'"
          using in0 by (simp add: rbByRoleAndSubject_def)
        have ok0: "ok ?rb0'" using role0 by (simp add: ok_role)
        have "\<forall>x \<in> set ?bs'. ok x" using ok2 ok0 by auto
        then have "f ?bs' = ?bs'" by (rule f_fix)
        moreover have "\<forall>rb \<in> set (?T ?bs'). Subjects rb \<noteq> []"
          using nonempty2 subj0 by auto
        moreover have "\<exists>objs'. ByIndex order' rbByRoleAndSubject ?key ?bs' = ?rb0' # objs'"
        proof -
          have sub: "set (filter ?P ?bs') \<subseteq> {?rb0'}"
          proof
            fix y assume "y \<in> set (filter ?P ?bs')"
            then obtain b where b: "b \<in> set ?bs2" "y = ?g b" "?P y" by auto
            show "y \<in> {?rb0'}"
            proof (cases "bindingKey b = bindingKey rb0")
              case True
              with b(2) show ?thesis by simp
            next
              case False
              with b have "b = rb0" by (intro only0) simp_all
              with False show ?thesis by simp
            qed
          qed
          have g0: "?g rb0 = ?rb0'" by simp
          have "?g rb0 \<in> set (map ?g ?bs2)"
            unfolding set_map using mem0 by (rule imageI)
          then have "?rb0' \<in> set ?bs'" unfolding g0 .
          with in0' have "?rb0' \<in> set (filter ?P ?bs')" by simp
          then have "0 < length (filter ?P ?bs')" by (rule length_pos_if_in_set)
          then have "0 < length (order' (filter ?P ?bs'))"
            unfolding reorders_length[OF ro'] .
          then obtain y ys where ys: "order' (filter ?P ?bs') = y # ys"
            by (cases "order' (filter ?P ?bs')") simp_all
          then have "y \<in> set (filter ?P ?bs')"
            using reorders_set[OF ro', of "filter ?P ?bs'"] by auto
          with sub have "y = ?rb0'" by blast
          with ys show ?thesis unfolding ByIndex_def by blast
        qed
        moreover have "rtbUID \<in> fst ` set (rb_Labels ?rb0')"
          by (simp add: dom_update image_iff)
        ultimately show ?thesis
          unfolding updated(1)
          using ensureSteps_settled[of f client s' c rtbUID order' roleName subject ?rb0' _ gen new]
          by (auto simp: b')
      qed
    qed
  qed
qed

lemma ensureSteps_shape:
  assumes f_distinct: "\<And>bs. distinct (map bindingKey bs) \<Longrightarrow> distinct (map bindingKey (f bs))"
    and run: "ensureSteps order c gen client f new roleName rtbUID subject s1 = (r, s')"
  shows "\<exists>bs'. s' = setBindings client bs' s1
     \<and> (distinct (map bindingKey (bindingsOf client s1)) \<longrightarrow> distinct (map bindingKey bs'))"
proof -
  let ?ns = "bindingNamespace client"
  let ?key = "rbRoleSubjectKey roleName subject"
  let ?T = "\<lambda>bs. filter (tagged c ?ns rtbUID) bs"
  let ?bs = "bindingsOf client s1"
  let ?bs2 = "f ?bs"
  let ?s2 = "setBindings client ?bs2 s1"
  have two: "?s2 = setBindings client ?bs2 s1
     \<and> (distinct (map bindingKey ?bs) \<longrightarrow> distinct (map bindingKey ?bs2))"
    using f_distinct by simp
  show ?thesis
  proof (cases "\<exists>rb \<in> set (?T ?bs). Subjects rb = []")
    case True
    have "(Some PanicIndexOutOfRange, s1) = (r, s')"
      using run unfolding ensureSteps_def Let_def if_P[OF True] .
    then have "s' = setBindings client ?bs s1" by simp
    then show ?thesis by blast
  next
    case nonempty: False
    show ?thesis
    proof (cases "\<exists>rb \<in> set (?T ?bs). matches ?key rb")
      case True
      have "(None, ?s2) = (r, s')"
        using run unfolding ensureSteps_def Let_def if_not_P[OF nonempty] if_P[OF True] .
      with two show ?thesis by blast
    next
      case nomatch: False
      have rest: "ensureRest order c gen client new ?key rtbUID ?s2 = (r, s')"
        using run unfolding ensureSteps_def Let_def if_not_P[OF nonempty] if_not_P[OF nomatch] .
      from ensureRest_cases[OF rest] consider
        (same) "s' = ?s2"
        | (created) nb where "s' = setBindings client (?bs2 @ [nb]) ?s2"
          "bindingKey nb \<notin> bindingKey ` set ?bs2"
        | (updated) rb0 where
          "s' = setBindings client
                 (map (\<lambda>b. if bindingKey b = bindingKey rb0
                     then rb0\<lparr>rb_Labels := AList.update rtbUID (membershipBindingOwner c) (rb_Labels rb0)\<rparr>
                     else b) ?bs2) ?s2"
        unfolding bindingsOf_setBindings by (fastforce simp: bindingKey_def)
      then show ?thesis
      proof cases
        case same
        with two show ?thesis by blast
      next
        case created
        have "distinct (map bindingKey ?bs) \<longrightarrow> distinct (map bindingKey (?bs2 @ [nb]))"
          using two created(2) by auto
        moreover have "s' = setBindings client (?bs2 @ [nb]) s1"
          using created(1) by simp
        ultimately show ?thesis by blast
      next
        case updated
        let ?g = "\<lambda>b. if bindingKey b = bindingKey rb0
                     then rb0\<lparr>rb_Labels := AList.update rtbUID (membershipBindingOwner c) (rb_Labels rb0)\<rparr>
                     else b"
        have "bindingKey \<circ> ?g = bindingKey"
          by (rule ext) (simp add: bindingKey_def)
        then have mk: "map bindingKey (map ?g ?bs2) = map bindingKey ?bs2"
          by (simp only: map_map)
        have "distinct (map bindingKey ?bs) \<longrightarrow> distinct (map bindingKey (map ?g ?bs2))"
          unfolding mk using two by blast
        moreover have "s' = setBindings client (map ?g ?bs2) s1"
          using updated(1) by simp
        ultimately show ?thesis by blast
      qed
    qed
  qed
qed

lemma createClusterMembershipRole_again:
  assumes "createClusterMembershipRole c roleName cluster makeOwner s = (None, s1)"
    and "st_ClusterRoles s' = st_ClusterRoles s1"
  shows "createClusterMembershipRole c roleName cluster makeOwner s' = (None, s')"
proof -
  have "\<exists>r \<in> set (st_ClusterRoles s1). isRole [] roleName r"
    using assms(1)
    by (auto simp: createClusterMembershipRole_def createMembershipRole_def createRole_def
        listerGetRole_def isRole_def find_None_iff find_Some_iff split: option.splits if_splits)
  then have "find (isRole [] roleName) (st_ClusterRoles s') \<noteq> None"
    using assms(2) by (auto simp: find_None_iff)
  then show ?thesis
    by (auto simp: createClusterMembershipRole_def listerGetRole_def)
qed

lemma createProjectMembershipRole_again:
  assumes "createProjectMembershipRole c roleName namespace project makeOwner s = (None, s1)"
    and "st_Roles s' = st_Roles s1"
  shows "createProjectMembershipRole c roleName namespace project makeOwner s' = (None, s')"
proof -
  have "\<exists>r \<in> set (st_Roles s1). isRole namespace roleName r"
    using assms(1)
    by (auto simp: createProjectMembershipRole_def createMembershipRole_def createRole_def
        listerGetRole_def isRole_def find_None_iff find_Some_iff split: option.splits if_splits)
  then have "find (isRole namespace roleName) (st_Roles s') \<noteq> None"
    using assms(2) by (auto simp: find_None_iff)
  then show ?thesis
    by (auto simp: createProjectMembershipRole_def listerGetRole_def)
qed

lemma ensureCluster_steps:
  assumes role: "createClusterMembershipRole c roleName cluster makeOwner s = (None, s1)"
    and ro: "reorders order"
  shows "ensureClusterMembershipBinding order c gen roleName rtbUID cluster makeOwner subject s
     = ensureSteps order c gen ClusterRoleBindingsClient (\<lambda>bs. bs)
         \<lparr>rb_Name = [], rb_GenerateName = ''clusterrolebinding-'', rb_Namespace = [],
          rb_Labels = [(rtbUID, membershipBindingOwner c)], rb_OwnerReferences = [],
          Subjects = [subject], RoleRef = \<lparr>ref_Kind = ''ClusterRole'', ref_Name = roleName\<rparr>\<rparr>
         roleName rtbUID subject s1"
proof -
  let ?key = "rbRoleSubjectKey roleName subject"
  let ?T = "filter (tagged c [] rtbUID) (st_ClusterRoleBindings s1)"
  let ?R = "ByIndex order rbByRoleAndSubject ?key (st_ClusterRoleBindings s1)"
  have ix: "byMembershipBindingOwner order c crbIndexer [] rtbUID s1
      = map ClusterRoleBindingObj (order ?T)"
    by (simp add: byMembershipBindingOwner_def ByIndex_def tagged_index)
  have so: "set (order ?T) = set ?T" using ro by (rule reorders_set)
  have rs: "byRoleAndSubject order crbIndexer ?key s1 = map ClusterRoleBindingObj ?R"
    by (simp add: byRoleAndSubject_def)
  have same: "s1\<lparr>st_ClusterRoleBindings := st_ClusterRoleBindings s1\<rparr> = s1"
    by simp
  show ?thesis
  proof (cases "\<exists>rb \<in> set ?T. Subjects rb = []")
    case True
    then have "\<exists>rb \<in> set (order ?T). Subjects rb = []" unfolding so .
    with True show ?thesis
      by (simp add: ensureClusterMembershipBinding_def role Let_def ix clusterCandidates_loop_eq
          ensureSteps_def)
  next
    case nonempty: False
    then have nonempty': "\<not> (\<exists>rb \<in> set (order ?T). Subjects rb = [])" unfolding so .
    show ?thesis
    proof (cases "\<exists>rb \<in> set ?T. matches ?key rb")
      case True
      then have "candidates ?key (order ?T) None \<noteq> None" unfolding candidates_found so by blast
      then obtain y where "candidates ?key (order ?T) None = Some y" by blast
      with nonempty nonempty' True show ?thesis
        by (simp add: ensureClusterMembershipBinding_def role Let_def ix clusterCandidates_loop_eq
            ensureSteps_def reconcileCluster_unchanged same)
    next
      case False
      then have "candidates ?key (order ?T) None = None"
        using candidates_found[of ?key "order ?T" None] unfolding so by simp
      with nonempty nonempty' False show ?thesis
        by (cases ?R)
          (auto simp: ensureClusterMembershipBinding_def role Let_def ix
            clusterCandidates_loop_eq ensureSteps_def reconcileCluster_unchanged same rs
            ensureRest_def)
    qed
  qed
qed

lemma ensureProject_steps:
  assumes role: "createProjectMembershipRole c roleName namespace project makeOwner s = (None, s1)"
    and d: "distinct (map bindingKey (st_RoleBindings s1))"
    and ro: "reorders order"
  shows "ensureProjectMembershipBinding order c gen roleName rtbUID namespace project makeOwner subject s
     = ensureSteps order c gen (RoleBindingsClient namespace)
         (List.map_filter (reconciled c namespace roleName rtbUID))
         \<lparr>rb_Name = [], rb_GenerateName = ''rolebinding-'', rb_Namespace = [],
          rb_Labels = [(rtbUID, membershipBindingOwner c)], rb_OwnerReferences = [],
          Subjects = [subject], RoleRef = \<lparr>ref_Kind = ''Role'', ref_Name = roleName\<rparr>\<rparr>
         roleName rtbUID subject s1"
proof -
  let ?key = "rbRoleSubjectKey roleName subject"
  let ?T = "filter (tagged c namespace rtbUID) (st_RoleBindings s1)"
  let ?s2 = "s1\<lparr>st_RoleBindings :=
      List.map_filter (reconciled c namespace roleName rtbUID) (st_RoleBindings s1)\<rparr>"
  let ?R = "ByIndex order rbByRoleAndSubject ?key (st_RoleBindings ?s2)"
  have ix: "byMembershipBindingOwner order c rbIndexer namespace rtbUID s1
      = map RoleBindingObj (order ?T)"
    by (simp add: byMembershipBindingOwner_def ByIndex_def tagged_index)
  have so: "set (order ?T) = set ?T" using ro by (rule reorders_set)
  have rs: "byRoleAndSubject order rbIndexer ?key ?s2 = map RoleBindingObj ?R"
    by (simp add: byRoleAndSubject_def)
  have rec: "reconcileProjectMembershipBindingForDelete order c namespace roleName rtbUID s1
      = (None, ?s2)"
    using d ro by (rule reconcileProject_char)
  show ?thesis
  proof (cases "\<exists>rb \<in> set ?T. Subjects rb = []")
    case True
    then have "\<exists>rb \<in> set (order ?T). Subjects rb = []" unfolding so .
    with True show ?thesis
      by (simp add: ensureProjectMembershipBinding_def role Let_def ix projectCandidates_loop_eq
          ensureSteps_def)
  next
    case nonempty: False
    then have nonempty': "\<not> (\<exists>rb \<in> set (order ?T). Subjects rb = [])" unfolding so .
    show ?thesis
    proof (cases "\<exists>rb \<in> set ?T. matches ?key rb")
      case True
      then have "candidates ?key (order ?T) None \<noteq> None" unfolding candidates_found so by blast
      then obtain y where "candidates ?key (order ?T) None = Some y" by blast
      with nonempty nonempty' True show ?thesis
        by (simp add: ensureProjectMembershipBinding_def role Let_def ix projectCandidates_loop_eq
            ensureSteps_def rec)
    next
      case False
      then have "candidates ?key (order ?T) None = None"
        using candidates_found[of ?key "order ?T" None] unfolding so by simp
      with nonempty nonempty' False show ?thesis
        by (cases ?R)
          (auto simp: ensureProjectMembershipBinding_def role Let_def ix
            projectCandidates_loop_eq ensureSteps_def rec rs ensureRest_def)
    qed
  qed
qed

lemma stripped_untagged: "\<not> tagged c namespace rtbUID (stripped rtbUID rb)"
  using delete_notin_dom[of rtbUID "rb_Labels rb"] by (force simp: tagged_def stripped_def)

lemma stripped_fixed: "stripped rtbUID rb = rb \<Longrightarrow> \<not> tagged c namespace rtbUID rb"
  using stripped_untagged[of c namespace rtbUID rb] by simp

lemma set_map_filter_eq: "set (List.map_filter g xs) = {y. \<exists>x \<in> set xs. g x = Some y}"
  by (induction xs) (auto simp: map_filter_simps split: option.splits)

lemma reconciled_ok:
  assumes "x \<in> set (List.map_filter (reconciled c namespace roleToKeep rtbUID) bs)"
  shows "tagged c namespace rtbUID x \<longrightarrow> ref_Name (RoleRef x) = roleToKeep"
  using assms
  by (auto simp: set_map_filter_eq reconciled_def stripped_untagged stripped_fixed split: if_splits)

lemma reconciled_fix:
  assumes "\<forall>x \<in> set bs. tagged c namespace rtbUID x \<longrightarrow> ref_Name (RoleRef x) = roleToKeep"
  shows "List.map_filter (reconciled c namespace roleToKeep rtbUID) bs = bs"
  using assms by (induction bs) (auto simp: map_filter_simps reconciled_def)

lemma reconciled_tagged:
  "set (filter (tagged c namespace rtbUID)
          (List.map_filter (reconciled c namespace roleToKeep rtbUID) bs))
   = {x \<in> set bs. tagged c namespace rtbUID x \<and> ref_Name (RoleRef x) = roleToKeep}"
  by (auto simp: set_map_filter_eq reconciled_def stripped_untagged stripped_fixed split: if_splits)

lemma reconciled_oneBinding:
  "oneBinding roleName subject bs
   \<Longrightarrow> oneBinding roleName subject (List.map_filter (reconciled c namespace roleToKeep rtbUID) bs)"
proof -
  let ?P = "\<lambda>rb. rbRoleSubjectKey roleName subject \<in> set (rbByRoleAndSubject rb)"
  have "length (filter ?P (List.map_filter (reconciled c namespace roleToKeep rtbUID) bs))
      \<le> length (filter ?P bs)"
  proof (induction bs)
    case Nil
    show ?case by (simp add: map_filter_simps)
  next
    case (Cons x bs)
    have "?P (stripped rtbUID x) = ?P x"
      by (simp add: stripped_def rbByRoleAndSubject_def)
    with Cons show ?case
      by (auto simp: map_filter_simps reconciled_def)
  qed
  then show "oneBinding roleName subject bs
      \<Longrightarrow> oneBinding roleName subject (List.map_filter (reconciled c namespace roleToKeep rtbUID) bs)"
    by (simp add: oneBinding_def)
qed

lemma ensureCluster_idem:
  assumes ro: "reorders order" and ro': "reorders order'"
    and one: "oneBinding roleName subject (st_ClusterRoleBindings s)"
    and run: "ensureClusterMembershipBinding order c gen roleName rtbUID cluster makeOwner subject s
        = (r, s')"
  shows "ensureClusterMembershipBinding order' c gen roleName rtbUID cluster makeOwner subject s'
        = (r, s')"
proof -
  let ?new = "\<lparr>rb_Name = [], rb_GenerateName = ''clusterrolebinding-'', rb_Namespace = [],
          rb_Labels = [(rtbUID, membershipBindingOwner c)], rb_OwnerReferences = [],
          Subjects = [subject], RoleRef = \<lparr>ref_Kind = ''ClusterRole'', ref_Name = roleName\<rparr>\<rparr>"
  obtain s1 where role: "createClusterMembershipRole c roleName cluster makeOwner s = (None, s1)"
    and b: "st_ClusterRoleBindings s1 = st_ClusterRoleBindings s"
    using createClusterMembershipRole_ok by blast
  have one1: "oneBinding roleName subject (bindingsOf ClusterRoleBindingsClient s1)"
    using one b by simp
  have steps: "ensureSteps order c gen ClusterRoleBindingsClient (\<lambda>bs. bs) ?new roleName rtbUID
      subject s1 = (r, s')"
    using run unfolding ensureCluster_steps[OF role ro] .
  obtain bs' where "s' = setBindings ClusterRoleBindingsClient bs' s1"
    using ensureSteps_shape[OF _ steps] by blast
  then have "st_ClusterRoles s' = st_ClusterRoles s1" by simp
  with role have "createClusterMembershipRole c roleName cluster makeOwner s' = (None, s')"
    by (rule createClusterMembershipRole_again)
  then have "ensureClusterMembershipBinding order' c gen roleName rtbUID cluster makeOwner subject s'
      = ensureSteps order' c gen ClusterRoleBindingsClient (\<lambda>bs. bs) ?new roleName rtbUID subject s'"
    using ro' by (rule ensureCluster_steps)
  also have "\<dots> = (r, s')"
    by (rule ensureSteps_idem[where ok = "\<lambda>x. True", OF ro ro' one1 _ _ _ _ _ _ _ _ _ steps])
      simp_all
  finally show ?thesis .
qed

lemma ensureProject_idem:
  assumes ro: "reorders order" and ro': "reorders order'"
    and one: "oneBinding roleName subject (st_RoleBindings s)"
    and d: "distinct (map bindingKey (st_RoleBindings s))"
    and run: "ensureProjectMembershipBinding order c gen roleName rtbUID namespace project makeOwner
        subject s = (r, s')"
  shows "ensureProjectMembershipBinding order' c gen roleName rtbUID namespace project makeOwner
        subject s' = (r, s')"
proof -
  let ?new = "\<lparr>rb_Name = [], rb_GenerateName = ''rolebinding-'', rb_Namespace = [],
          rb_Labels = [(rtbUID, membershipBindingOwner c)], rb_OwnerReferences = [],
          Subjects = [subject], RoleRef = \<lparr>ref_Kind = ''Role'', ref_Name = roleName\<rparr>\<rparr>"
  let ?f = "List.map_filter (reconciled c namespace roleName rtbUID)"
  let ?client = "RoleBindingsClient namespace"
  obtain s1 where role: "createProjectMembershipRole c roleName namespace project makeOwner s = (None, s1)"
    and b: "st_RoleBindings s1 = st_RoleBindings s"
    using createProjectMembershipRole_ok by blast
  have d1: "distinct (map bindingKey (st_RoleBindings s1))" using d b by simp
  have one1: "oneBinding roleName subject (bindingsOf ?client s1)"
    using one b by simp
  have steps: "ensureSteps order c gen ?client ?f ?new roleName rtbUID subject s1 = (r, s')"
    using run unfolding ensureProject_steps[OF role d1 ro] .
  obtain bs' where s': "s' = setBindings ?client bs' s1"
    and d': "distinct (map bindingKey (bindingsOf ?client s1)) \<longrightarrow> distinct (map bindingKey bs')"
    using ensureSteps_shape[OF map_filter_distinct_keys steps] by blast
  have "st_Roles s' = st_Roles s1" using s' by simp
  with role have "createProjectMembershipRole c roleName namespace project makeOwner s' = (None, s')"
    by (rule createProjectMembershipRole_again)
  moreover have "distinct (map bindingKey (st_RoleBindings s'))"
    using d' d1 s' by simp
  ultimately have "ensureProjectMembershipBinding order' c gen roleName rtbUID namespace project
        makeOwner subject s'
      = ensureSteps order' c gen ?client ?f ?new roleName rtbUID subject s'"
    using ro' by (rule ensureProject_steps)
  also have "\<dots> = (r, s')"
  proof (rule ensureSteps_idem[where ok = "\<lambda>x. tagged c namespace rtbUID x \<longrightarrow> ref_Name (RoleRef x) = roleName",
        OF ro ro' one1 _ _ _ _ _ _ _ _ _ steps])
    show "oneBinding roleName subject (?f bs)" if "oneBinding roleName subject bs" for bs
      using that by (rule reconciled_oneBinding)
    show "tagged c namespace rtbUID x \<longrightarrow> ref_Name (RoleRef x) = roleName" if "x \<in> set (?f bs)" for bs x
      using that by (rule reconciled_ok)
    show "?f bs = bs" if "\<forall>x \<in> set bs. tagged c namespace rtbUID x \<longrightarrow> ref_Name (RoleRef x) = roleName" for bs
      using that by (rule reconciled_fix)
    show "set (filter (tagged c (bindingNamespace ?client) rtbUID) (?f bs))
        \<subseteq> set (filter (tagged c (bindingNamespace ?client) rtbUID) bs)" for bs
      using reconciled_tagged[of c namespace rtbUID roleName bs] by auto
    show "(\<exists>x \<in> set (filter (tagged c (bindingNamespace ?client) rtbUID) (?f bs)).
          matches (rbRoleSubjectKey roleName subject) x)
        = (\<exists>x \<in> set (filter (tagged c (bindingNamespace ?client) rtbUID) bs).
          matches (rbRoleSubjectKey roleName subject) x)" for bs
      using reconciled_tagged[of c namespace rtbUID roleName bs]
      by (auto simp: matches_def rbRoleSubjectKey_def)
  qed simp_all
  finally show ?thesis .
qed

text \<open>
  C3 (amended). On a well-formed store in which at most one cluster role binding
  (for \<^verbatim>\<open>ensureClusterMembershipBinding\<close>) or role binding (for
  \<^verbatim>\<open>ensureProjectMembershipBinding\<close>) has the role and the subject, the function is
  idempotent, in whatever order the indexes return their objects in the two calls:
  called again with the same arguments on the store the first call left, it returns
  what the first call returned and leaves that store, its membership roles and
  bindings, as it is.
\<close>

theorem ensureMembershipBinding_idempotent:
  assumes "wellFormed s" and "reorders order" and "reorders order'"
  shows "(oneBinding roleName subject (st_ClusterRoleBindings s) \<longrightarrow>
          ensureClusterMembershipBinding order' c gen roleName rtbUID cluster makeOwner subject
            (snd (ensureClusterMembershipBinding order c gen roleName rtbUID cluster makeOwner
               subject s))
          = ensureClusterMembershipBinding order c gen roleName rtbUID cluster makeOwner subject s)
       \<and> (oneBinding roleName subject (st_RoleBindings s) \<longrightarrow>
          ensureProjectMembershipBinding order' c gen roleName rtbUID namespace project makeOwner
            subject
            (snd (ensureProjectMembershipBinding order c gen roleName rtbUID namespace project
               makeOwner subject s))
          = ensureProjectMembershipBinding order c gen roleName rtbUID namespace project makeOwner
              subject s)"
proof (intro conjI impI)
  assume one: "oneBinding roleName subject (st_ClusterRoleBindings s)"
  obtain r s' where run:
    "ensureClusterMembershipBinding order c gen roleName rtbUID cluster makeOwner subject s = (r, s')"
    by (cases "ensureClusterMembershipBinding order c gen roleName rtbUID cluster makeOwner subject s")
  show "ensureClusterMembershipBinding order' c gen roleName rtbUID cluster makeOwner subject
            (snd (ensureClusterMembershipBinding order c gen roleName rtbUID cluster makeOwner
               subject s))
          = ensureClusterMembershipBinding order c gen roleName rtbUID cluster makeOwner subject s"
    unfolding run snd_conv using assms(2,3) one run by (rule ensureCluster_idem)
next
  assume one: "oneBinding roleName subject (st_RoleBindings s)"
  have d: "distinct (map bindingKey (st_RoleBindings s))"
  proof -
    have "bindingKey = (\<lambda>b. (rb_Namespace b, rb_Name b))"
      by (rule ext) (simp add: bindingKey_def)
    with assms(1) show ?thesis by (simp add: wellFormed_def)
  qed
  obtain r s' where run:
    "ensureProjectMembershipBinding order c gen roleName rtbUID namespace project makeOwner subject s
       = (r, s')"
    by (cases "ensureProjectMembershipBinding order c gen roleName rtbUID namespace project makeOwner
        subject s")
  show "ensureProjectMembershipBinding order' c gen roleName rtbUID namespace project makeOwner
            subject
            (snd (ensureProjectMembershipBinding order c gen roleName rtbUID namespace project
               makeOwner subject s))
          = ensureProjectMembershipBinding order c gen roleName rtbUID namespace project makeOwner
              subject s"
    unfolding run snd_conv using assms(2,3) one d run by (rule ensureProject_idem)
qed

theorem ensureMembershipBinding_idempotent_witness:
  "wellFormed staleStore \<and> reorders (\<lambda>objs. objs) \<and> reorders rev
   \<and> oneBinding ''c-1-clustermember'' memberSubject (st_ClusterRoleBindings staleStore)
   \<and> oneBinding ''c-1-clustermember'' memberSubject (st_RoleBindings staleStore)
   \<and> snd (ensureClusterMembershipBinding (\<lambda>objs. objs) testConstants generated
          ''c-1-clustermember'' ''uid-1'' someCluster False memberSubject staleStore) \<noteq> staleStore
   \<and> ensureClusterMembershipBinding rev testConstants generated ''c-1-clustermember'' ''uid-1''
          someCluster False memberSubject
          (snd (ensureClusterMembershipBinding (\<lambda>objs. objs) testConstants generated
             ''c-1-clustermember'' ''uid-1'' someCluster False memberSubject staleStore))
       = ensureClusterMembershipBinding (\<lambda>objs. objs) testConstants generated
          ''c-1-clustermember'' ''uid-1'' someCluster False memberSubject staleStore
   \<and> snd (ensureProjectMembershipBinding (\<lambda>objs. objs) testConstants generated
          ''c-1-clustermember'' ''uid-1'' ''c-1'' someProject False memberSubject staleStore)
       \<noteq> staleStore
   \<and> ensureProjectMembershipBinding rev testConstants generated ''c-1-clustermember'' ''uid-1''
          ''c-1'' someProject False memberSubject
          (snd (ensureProjectMembershipBinding (\<lambda>objs. objs) testConstants generated
             ''c-1-clustermember'' ''uid-1'' ''c-1'' someProject False memberSubject staleStore))
       = ensureProjectMembershipBinding (\<lambda>objs. objs) testConstants generated
          ''c-1-clustermember'' ''uid-1'' ''c-1'' someProject False memberSubject staleStore"
proof -
  have wf: "wellFormed staleStore"
    by (simp add: wellFormed_def staleStore_def emptyStore_def oldBinding_def)
  have ro: "reorders (\<lambda>objs. objs)" and ro': "reorders rev"
    by (simp_all add: reorders_def)
  have o1: "oneBinding ''c-1-clustermember'' memberSubject (st_ClusterRoleBindings staleStore)"
    by (simp add: oneBinding_def staleStore_def emptyStore_def)
  have o2: "oneBinding ''c-1-clustermember'' memberSubject (st_RoleBindings staleStore)"
    by (simp add: oneBinding_def staleStore_def emptyStore_def)
  have c1: "snd (ensureClusterMembershipBinding (\<lambda>objs. objs) testConstants generated
          ''c-1-clustermember'' ''uid-1'' someCluster False memberSubject staleStore) \<noteq> staleStore"
    by code_simp
  have p1: "snd (ensureProjectMembershipBinding (\<lambda>objs. objs) testConstants generated
          ''c-1-clustermember'' ''uid-1'' ''c-1'' someProject False memberSubject staleStore)
       \<noteq> staleStore"
    by code_simp
  note inst = ensureMembershipBinding_idempotent[OF wf ro ro', where c = testConstants
      and gen = generated and roleName = "''c-1-clustermember''" and rtbUID = "''uid-1''"
      and cluster = someCluster and makeOwner = False and subject = memberSubject
      and namespace = "''c-1''" and project = someProject]
  from wf ro ro' o1 o2 c1 p1 inst show ?thesis by blast
qed

text \<open>
  C3 as stated fails: not on every store. The store holds two cluster role bindings of
  the role and the subject, neither tagged. The first call, whose index of role and
  subject returns them in the order of the store, tags the first; the second call,
  whose index returns them in the other order, reads the second as
  \<^verbatim>\<open>objs[0]\<close>, finds it untagged and tags it too.
\<close>

theorem ensureClusterMembershipBinding_counterexample:
  "wellFormed twinStore \<and> reorders (\<lambda>objs. objs) \<and> reorders rev
   \<and> snd (ensureClusterMembershipBinding rev testConstants generated ''c-1-clustermember''
          ''uid-1'' someCluster False memberSubject
          (snd (ensureClusterMembershipBinding (\<lambda>objs. objs) testConstants generated
             ''c-1-clustermember'' ''uid-1'' someCluster False memberSubject twinStore)))
     \<noteq> snd (ensureClusterMembershipBinding (\<lambda>objs. objs) testConstants generated
          ''c-1-clustermember'' ''uid-1'' someCluster False memberSubject twinStore)"
proof -
  have "wellFormed twinStore"
    by (simp add: wellFormed_def twinStore_def emptyStore_def oldBinding_def)
  moreover have "reorders (\<lambda>objs. objs)" "reorders rev"
    by (simp_all add: reorders_def)
  moreover have "snd (ensureClusterMembershipBinding rev testConstants generated ''c-1-clustermember''
          ''uid-1'' someCluster False memberSubject
          (snd (ensureClusterMembershipBinding (\<lambda>objs. objs) testConstants generated
             ''c-1-clustermember'' ''uid-1'' someCluster False memberSubject twinStore)))
     \<noteq> snd (ensureClusterMembershipBinding (\<lambda>objs. objs) testConstants generated
          ''c-1-clustermember'' ''uid-1'' someCluster False memberSubject twinStore)"
    by code_simp
  ultimately show ?thesis by blast
qed

end
